theory Spec2Isabelle
  imports Complex_Main "HOL-Library.AList"
begin

section \<open>Python values, errors and the tabular engine\<close>

text \<open>
  The values that occur in filters and in table cells.
  \<^item> \<open>PNum x\<close>: a number, by its value. An int, a bool and a finite float that are \<open>==\<close>
    are one value here: Python's \<open>==\<close>, \<open>hash\<close> and order do not tell them apart.
    \<open>PInt n\<close> is the int \<open>n\<close>.
  \<^item> \<open>PNaN i\<close>: the float \<open>nan\<close>, as the object of identity \<open>i\<close>. It is not \<open>==\<close> to itself
    and every order comparison with it is false, but a container compares its elements by
    identity first, so two containers holding the same \<open>nan\<close> object are \<open>==\<close>.
  \<^item> \<open>PStr s\<close>, \<open>PList xs\<close>: strings and lists.

  HOL equality on these values is the comparison of elements inside a container (identity
  or \<open>==\<close>); \<open>py_eq\<close> is \<open>==\<close> itself. \<open>None\<close>, tuples and arrays are left out.
\<close>

datatype pyval = PNum real | PNaN nat | PStr string | PList "pyval list"

abbreviation PInt :: "int \<Rightarrow> pyval" where
  "PInt n \<equiv> PNum (of_int n)"

fun py_eq :: "pyval \<Rightarrow> pyval \<Rightarrow> bool" where
  "py_eq (PNaN i) b = False"
| "py_eq a b = (a = b)"

text \<open>
  A filter value is a plain value (scalar or list) or a dict from operator name to operand.
  A dict is an association list in insertion order; a field dictionary (a query) is an
  association list from field name to filter value.
\<close>

datatype fvalue = Plain pyval | Ops "(string \<times> pyval) list"

type_synonym query = "(string \<times> fvalue) list"

text \<open>
  The exceptions of the source, as values:
  \<^item> \<open>EmptyFilter\<close>: \<open>ValueError("Empty filter")\<close>;
  \<^item> \<open>UnsupportedOperators ops\<close>: \<open>ValueError(f"Unsupported operator(s): {ops}")\<close>;
  \<^item> \<open>AssertionError msg\<close>: a failed \<open>assert\<close> with its message;
  \<^item> \<open>LengthOfOrder n m\<close>: \<open>RuntimeError("Length of order must be same as number of
    levels (n), got m")\<close>;
  \<^item> \<open>LevelsNotFound names\<close>: \<open>RuntimeError("Levels not found: ...")\<close>, the names joined
    in the iteration order of a Python set, kept here as the set;
  \<^item> \<open>KeyError k\<close>, \<open>TypeError\<close>: the built-in exceptions;
  \<^item> \<open>ValueError msg\<close>: a \<open>ValueError\<close> of the tabular engine;
  \<^item> \<open>NotAMask\<close>: numpy gave a scalar or refused a ragged list where a mask is needed.
\<close>

datatype error =
    EmptyFilter
  | UnsupportedOperators "string list"
  | AssertionError string
  | LengthOfOrder nat nat
  | LevelsNotFound "string set"
  | KeyError string
  | TypeError
  | ValueError string
  | NotAMask

type_synonym mask = "bool list"

text \<open>
  A series (a column, or the values of an index level) has a dtype and its cells, row by
  row.
\<close>

record column =
  dtype :: string
  cells :: "pyval list"

text \<open>
  The tabular engine (pandas) is external. For an operator name, a series and an operand,
  an engine raises or selects rows: it sees the whole series with its dtype and the whole
  operand, so its answer for a row may depend on the other rows, on the position of the
  row and on the length of the series. \<open>COMPARISON_OPERATORS[op](obj)(v)\<close> is the mask of
  its answer over the rows of \<open>obj\<close>.
\<close>

type_synonym engine = "string \<Rightarrow> column \<Rightarrow> pyval \<Rightarrow> error + (nat \<Rightarrow> bool)"

fun sequence :: "(error + 'a) list \<Rightarrow> error + 'a list" where
  "sequence [] = Inr []"
| "sequence (r # rs) =
     (case r of Inl e \<Rightarrow> Inl e
      | Inr x \<Rightarrow> (case sequence rs of Inl e \<Rightarrow> Inl e | Inr xs \<Rightarrow> Inr (x # xs)))"

definition apply_operator :: "engine \<Rightarrow> string \<Rightarrow> column \<Rightarrow> pyval \<Rightarrow> error + mask" where
  "apply_operator E op obj v =
     (case E op obj v of
        Inl e \<Rightarrow> Inl e
      | Inr selected \<Rightarrow> Inr (map selected [0..<length (cells obj)]))"

text \<open>
  A table: named columns and index levels (a level may be unnamed), each a series; every
  series of a table has the same length. \<open>df.loc[mask]\<close> keeps the rows where the mask is
  true, in their order, and the dtypes. Tables are values here: a table is not changed
  in place.
\<close>

record frame =
  df_columns :: "(string \<times> column) list"
  df_index :: "(string option \<times> column) list"

record series =
  s_index :: "(string option \<times> column) list"
  s_values :: column

definition select :: "mask \<Rightarrow> 'a list \<Rightarrow> 'a list" where
  "select m xs = map snd (filter fst (zip m xs))"

definition column_loc :: "mask \<Rightarrow> column \<Rightarrow> column" where
  "column_loc m c = c\<lparr>cells := select m (cells c)\<rparr>"

definition loc :: "frame \<Rightarrow> mask \<Rightarrow> frame" where
  "loc d m = \<lparr> df_columns = map (\<lambda>(k, c). (k, column_loc m c)) (df_columns d),
              df_index = map (\<lambda>(k, c). (k, column_loc m c)) (df_index d) \<rparr>"

definition series_loc :: "series \<Rightarrow> mask \<Rightarrow> series" where
  "series_loc s m = \<lparr> s_index = map (\<lambda>(k, c). (k, column_loc m c)) (s_index s),
                     s_values = column_loc m (s_values s) \<rparr>"

text \<open>\<open>np.all(masks, axis=0)\<close> and \<open>np.any(masks, axis=0)\<close> on a list of masks.\<close>

fun np_reduce :: "(bool \<Rightarrow> bool \<Rightarrow> bool) \<Rightarrow> mask list \<Rightarrow> error + mask" where
  "np_reduce f [] = Inl NotAMask"
| "np_reduce f (m # ms) =
     (if list_all (\<lambda>m'. length m' = length m) ms
      then Inr (foldl (\<lambda>acc m'. map2 f acc m') m ms)
      else Inl NotAMask)"

definition np_all :: "mask list \<Rightarrow> error + mask" where
  "np_all = np_reduce (\<and>)"

definition np_any :: "mask list \<Rightarrow> error + mask" where
  "np_any = np_reduce (\<or>)"

section \<open>Filter algebra: \<open>compare\<close>, \<open>_and_or_mask\<close>, \<open>query_frame\<close>, \<open>query_series\<close>\<close>

definition COMPARISON_OPERATORS :: "string list" where
  "COMPARISON_OPERATORS = [''eq'', ''ne'', ''le'', ''lt'', ''ge'', ''gt'', ''isin'', ''regex'']"

fun compare :: "engine \<Rightarrow> column \<Rightarrow> fvalue \<Rightarrow> error + mask" where
  "compare E obj (Ops d) =
     (if d = [] then Inl EmptyFilter
      else (let unsupported = filter (\<lambda>op. op \<notin> set COMPARISON_OPERATORS) (map fst d) in
        if unsupported \<noteq> [] then Inl (UnsupportedOperators unsupported)
        else (case sequence (map (\<lambda>(op, v). apply_operator E op obj v) d) of
                Inl e \<Rightarrow> Inl e
              | Inr masks \<Rightarrow> if length masks = 1 then Inr (hd masks) else np_all masks)))"
| "compare E obj (Plain (PList xs)) = apply_operator E ''isin'' obj (PList xs)"
| "compare E obj (Plain v) = apply_operator E ''eq'' obj v"

text \<open>
  \<open>_and_or_mask\<close>: empty dictionaries are skipped; \<open>None\<close> when no mask was collected.
\<close>

fun or_masks_loop :: "(query \<Rightarrow> error + mask list) \<Rightarrow> query list \<Rightarrow> mask list \<Rightarrow> error + mask list" where
  "or_masks_loop filter_func [] or_masks = Inr or_masks"
| "or_masks_loop filter_func (q # qs) or_masks =
     (if q \<noteq> [] then
        (case filter_func q of
           Inl e \<Rightarrow> Inl e
         | Inr and_masks \<Rightarrow>
             (case (if length and_masks = 1 then Inr (hd and_masks) else np_all and_masks) of
                Inl e \<Rightarrow> Inl e
              | Inr m \<Rightarrow> or_masks_loop filter_func qs (or_masks @ [m])))
      else or_masks_loop filter_func qs or_masks)"

definition and_or_mask :: "query list \<Rightarrow> (query \<Rightarrow> error + mask list) \<Rightarrow> error + mask option" where
  "and_or_mask query_list filter_func =
     (case or_masks_loop filter_func query_list [] of
        Inl e \<Rightarrow> Inl e
      | Inr or_masks \<Rightarrow>
          if or_masks = [] then Inr None
          else if length or_masks = 1 then Inr (Some (hd or_masks))
          else (case np_any or_masks of Inl e \<Rightarrow> Inl e | Inr m \<Rightarrow> Inr (Some m)))"

text \<open>
  \<open>query_frame\<close>. \<open>mapping\<close> sends a name to the columns or to the index, the columns
  winning; \<open>_filter_func\<close> first splits the query by it (an unknown key raises
  \<open>KeyError\<close>), then compares the columns, then the index levels.
\<close>

datatype place = Columns | Index

definition mapping :: "frame \<Rightarrow> string \<Rightarrow> place option" where
  "mapping d k =
     (if k \<in> fst ` set (df_columns d) then Some Columns
      else if Some k \<in> fst ` set (df_index d) then Some Index
      else None)"

fun split_query :: "frame \<Rightarrow> query \<Rightarrow> query \<times> query \<Rightarrow> error + query \<times> query" where
  "split_query d [] q = Inr q"
| "split_query d ((k, v) # rest) (cols, idx) =
     (case mapping d k of
        None \<Rightarrow> Inl (KeyError k)
      | Some Columns \<Rightarrow> split_query d rest (AList.update k v cols, idx)
      | Some Index \<Rightarrow> split_query d rest (cols, AList.update k v idx))"

definition get_column :: "frame \<Rightarrow> string \<Rightarrow> error + column" where
  "get_column d k = (case map_of (df_columns d) k of None \<Rightarrow> Inl (KeyError k) | Some c \<Rightarrow> Inr c)"

definition get_level_values :: "(string option \<times> column) list \<Rightarrow> string \<Rightarrow> error + column" where
  "get_level_values idx k = (case map_of idx (Some k) of None \<Rightarrow> Inl (KeyError k) | Some c \<Rightarrow> Inr c)"

definition frame_filter_func :: "engine \<Rightarrow> frame \<Rightarrow> query \<Rightarrow> error + mask list" where
  "frame_filter_func E d q =
     (case split_query d q ([], []) of
        Inl e \<Rightarrow> Inl e
      | Inr (cols, idx) \<Rightarrow>
          sequence
            (map (\<lambda>(k, v). case get_column d k of Inl e \<Rightarrow> Inl e | Inr obj \<Rightarrow> compare E obj v) cols
             @ map (\<lambda>(k, v). case get_level_values (df_index d) k of
                                Inl e \<Rightarrow> Inl e | Inr obj \<Rightarrow> compare E obj v) idx))"

definition query_frame :: "engine \<Rightarrow> frame \<Rightarrow> query list \<Rightarrow> error + frame" where
  "query_frame E d query_list =
     (case and_or_mask query_list (frame_filter_func E d) of
        Inl e \<Rightarrow> Inl e
      | Inr None \<Rightarrow> Inr d
      | Inr (Some m) \<Rightarrow> Inr (loc d m))"

definition series_filter_func :: "engine \<Rightarrow> series \<Rightarrow> query \<Rightarrow> error + mask list" where
  "series_filter_func E s q =
     sequence (map (\<lambda>(k, v). case get_level_values (s_index s) k of
                                Inl e \<Rightarrow> Inl e | Inr obj \<Rightarrow> compare E obj v) q)"

definition query_series :: "engine \<Rightarrow> series \<Rightarrow> query list \<Rightarrow> error + series" where
  "query_series E s query_list =
     (case and_or_mask query_list (series_filter_func E s) of
        Inl e \<Rightarrow> Inl e
      | Inr None \<Rightarrow> Inr s
      | Inr (Some m) \<Rightarrow> Inr (series_loc s m))"

section \<open>Prefix cache: \<open>longest_match_count\<close>, \<open>CachedDataFrame\<close>\<close>

text \<open>
  Python's \<open>==\<close> on filter values: \<open>==\<close> on plain values; two dicts are equal when they
  have the same items, whatever their order (the values of the items are compared as
  elements of a container).
\<close>

fun value_eq :: "fvalue \<Rightarrow> fvalue \<Rightarrow> bool" where
  "value_eq (Plain a) (Plain b) = py_eq a b"
| "value_eq (Ops a) (Ops b) = (set a = set b)"
| "value_eq _ _ = False"

text \<open>
  The values of the dictionary given to \<open>CachedDataFrame.query\<close> are objects of the caller.
  The cache keeps and compares the objects themselves, not copies: an object is an address
  here, and a heap gives the value that each object has at the time of a call. The caller
  may change a list or a dict in place between two calls, which changes the heap and not
  the address.
\<close>

type_synonym ref = nat

type_synonym heap = "ref \<Rightarrow> fvalue"

type_synonym object_query = "(string \<times> ref) list"

text \<open>\<open>longest_match_count\<close>, with the \<open>!=\<close> of the elements as an argument.\<close>

fun lmc_loop :: "('a \<Rightarrow> 'b \<Rightarrow> bool) \<Rightarrow> nat \<Rightarrow> 'a list \<Rightarrow> 'b list \<Rightarrow> nat" where
  "lmc_loop ne count (i1 # r1) (i2 # r2) =
     (if ne i1 i2 then count else lmc_loop ne (count + 1) r1 r2)"
| "lmc_loop ne count _ _ = count"

definition longest_match_count :: "('a \<Rightarrow> 'b \<Rightarrow> bool) \<Rightarrow> 'a list \<Rightarrow> 'b list \<Rightarrow> nat" where
  "longest_match_count ne iter1 iter2 = lmc_loop ne 0 iter1 iter2"

record CachedItem =
  df :: frame
  key :: string
  val :: ref

record CachedDataFrame =
  cdf_df :: frame
  cdf_valid_keys :: "string list"
  cdf_stack :: "CachedItem list"
  cdf_matched :: nat

definition CachedDataFrame_init :: "frame \<Rightarrow> CachedDataFrame" where
  "CachedDataFrame_init d =
     \<lparr> cdf_df = d,
       cdf_valid_keys = map fst (df_columns d)
         @ concat (map (\<lambda>(k, c). case k of None \<Rightarrow> [] | Some n \<Rightarrow> if n = [] then [] else [n])
                       (df_index d)),
       cdf_stack = [],
       cdf_matched = 0 \<rparr>"

definition longest_keys_count :: "CachedDataFrame \<Rightarrow> string list \<Rightarrow> nat" where
  "longest_keys_count self keys = longest_match_count (\<noteq>) (map key (cdf_stack self)) keys"

definition longest_values_count :: "heap \<Rightarrow> CachedDataFrame \<Rightarrow> ref list \<Rightarrow> nat" where
  "longest_values_count h self values =
     longest_match_count (\<lambda>a b. \<not> value_eq (h a) (h b)) (map val (cdf_stack self)) values"

text \<open>
  Modelled from the spec: the accessor method \<open>df.etl.q\<close> (module \<open>blueetl_core.etl\<close>),
  which the cache calls with a one-field dictionary. By the spec the cache delegates the
  row filtering of each field to the same masking logic, so \<open>df.etl.q(query)\<close> is
  \<open>query_frame\<close> on the one-element query list.
\<close>

definition etl_q :: "engine \<Rightarrow> frame \<Rightarrow> query \<Rightarrow> error + frame" where
  "etl_q E d q = query_frame E d [q]"

function query_loop ::
  "engine \<Rightarrow> heap \<Rightarrow> string list \<Rightarrow> ref list \<Rightarrow> frame \<Rightarrow> CachedDataFrame
     \<Rightarrow> (error + frame) \<times> CachedDataFrame" where
  "query_loop E h query_keys query_values d self =
     (if length (cdf_stack self) < length query_keys then
        (let col = query_keys ! length (cdf_stack self);
             v = query_values ! length (cdf_stack self)
         in case etl_q E d [(col, h v)] of
              Inl e \<Rightarrow> (Inl e, self)
            | Inr d' \<Rightarrow>
                query_loop E h query_keys query_values d'
                  (self\<lparr>cdf_stack := cdf_stack self @ [\<lparr>df = d', key = col, val = v\<rparr>]\<rparr>))
      else (Inr d, self))"
  by pat_completeness auto
termination
  by (relation "measure (\<lambda>(E, h, ks, vs, d, self). length ks - length (cdf_stack self))") auto

declare query_loop.simps [simp del]

definition query ::
  "engine \<Rightarrow> heap \<Rightarrow> CachedDataFrame \<Rightarrow> object_query \<Rightarrow> bool
     \<Rightarrow> (error + frame) \<times> CachedDataFrame" where
  "query E h self q ignore_unknown_keys =
     (let q' = (if ignore_unknown_keys
                then filter (\<lambda>(k, v). k \<in> set (cdf_valid_keys self)) q else q);
          query_keys = map fst q';
          query_values = map snd q';
          matched = min (longest_keys_count self query_keys)
                        (longest_values_count h self query_values);
          stack = take matched (cdf_stack self);
          d = (if stack \<noteq> [] then df (last stack) else cdf_df self)
      in query_loop E h query_keys query_values d
           (self\<lparr>cdf_matched := matched, cdf_stack := stack\<rparr>))"

text \<open>
  The spec's reading of the matched count: the length of the longest prefix in which, at
  each position, both the key and the value of the query match the stack entry.
\<close>

fun joint_prefix_length :: "heap \<Rightarrow> CachedItem list \<Rightarrow> object_query \<Rightarrow> nat" where
  "joint_prefix_length h (item # stack) ((k, v) # q) =
     (if key item = k \<and> value_eq (h (val item)) (h v)
      then Suc (joint_prefix_length h stack q) else 0)"
| "joint_prefix_length h _ _ = 0"

section \<open>Subfilter relation: \<open>is_subfilter\<close>\<close>

text \<open>
  Python's \<open>operator.le\<close> and \<open>operator.ge\<close> on values: numbers by value, false whenever one
  side is \<open>nan\<close>, strings and lists lexicographically (a list compares at its first
  differing element, or by length), and \<open>TypeError\<close> between values of different types.
\<close>

fun str_le :: "string \<Rightarrow> string \<Rightarrow> bool" where
  "str_le [] ys = True"
| "str_le (x # xs) [] = False"
| "str_le (x # xs) (y # ys) = (if x = y then str_le xs ys else (of_char x :: nat) < of_char y)"

fun py_le :: "pyval \<Rightarrow> pyval \<Rightarrow> error + bool"
  and list_le :: "pyval list \<Rightarrow> pyval list \<Rightarrow> error + bool" where
  "py_le (PNum a) (PNum b) = Inr (a \<le> b)"
| "py_le (PNum a) (PNaN j) = Inr False"
| "py_le (PNaN i) (PNum b) = Inr False"
| "py_le (PNaN i) (PNaN j) = Inr False"
| "py_le (PStr a) (PStr b) = Inr (str_le a b)"
| "py_le (PList a) (PList b) = list_le a b"
| "py_le _ _ = Inl TypeError"
| "list_le [] ys = Inr True"
| "list_le (x # xs) [] = Inr False"
| "list_le (x # xs) (y # ys) = (if x = y then list_le xs ys else py_le x y)"

definition py_ge :: "pyval \<Rightarrow> pyval \<Rightarrow> error + bool" where
  "py_ge a b = py_le b a"

text \<open>
  \<open>value in container\<close>: membership in a list, substring test in a string (the value must
  be a string), \<open>TypeError\<close> in a number.
\<close>

definition is_substring :: "string \<Rightarrow> string \<Rightarrow> bool" where
  "is_substring t s = list_ex (\<lambda>i. take (length t) (drop i s) = t) [0..<Suc (length s)]"

fun py_contains :: "pyval \<Rightarrow> pyval \<Rightarrow> error + bool" where
  "py_contains (PList xs) v = Inr (v \<in> set xs)"
| "py_contains (PStr s) (PStr t) = Inr (is_substring t s)"
| "py_contains _ _ = Inl TypeError"

text \<open>
  \<open>set(a)\<close>: the elements of a list, which must be hashable (a list is not), or the
  characters of a string; a number is not iterable.
\<close>

fun hashable :: "pyval \<Rightarrow> bool" where
  "hashable (PList xs) = False"
| "hashable v = True"

fun py_set :: "pyval \<Rightarrow> error + pyval set" where
  "py_set (PList xs) = (if list_all hashable xs then Inr (set xs) else Inl TypeError)"
| "py_set (PStr s) = Inr (set (map (\<lambda>c. PStr [c]) s))"
| "py_set v = Inl TypeError"

definition issubset :: "pyval \<Rightarrow> pyval \<Rightarrow> error + bool" where
  "issubset a b =
     (case py_set a of Inl e \<Rightarrow> Inl e
      | Inr A \<Rightarrow> (case py_set b of Inl e \<Rightarrow> Inl e | Inr B \<Rightarrow> Inr (A \<subseteq> B)))"

text \<open>\<open>_to_dict\<close>: the normalized filter, where \<open>eq\<close> is folded into \<open>isin\<close>.\<close>

fun to_dict :: "fvalue \<Rightarrow> error + (string \<times> pyval) list" where
  "to_dict (Ops obj) =
     (case map_of obj ''eq'' of
        None \<Rightarrow> Inr obj
      | Some v \<Rightarrow>
          (let obj' = AList.delete ''eq'' obj in
           case map_of obj' ''isin'' of
             None \<Rightarrow> Inr (AList.update ''isin'' (PList [v]) obj')
           | Some c \<Rightarrow>
               (case py_contains c v of
                  Inl e \<Rightarrow> Inl e
                | Inr b \<Rightarrow> Inr (AList.update ''isin'' (PList (if b then [v] else [])) obj'))))"
| "to_dict (Plain (PList xs)) = Inr [(''isin'', PList xs)]"
| "to_dict (Plain v) = Inr [(''isin'', PList [v])]"

text \<open>
  \<open>_is_subdict\<close>: the table of operations in its order, the two assertions, and the loop
  that collects the unmatched operators.
\<close>

definition operators :: "(string \<times> (pyval \<Rightarrow> pyval \<Rightarrow> error + bool)) list" where
  "operators =
     [(''ne'', \<lambda>a b. Inr (py_eq a b)),
      (''le'', py_le),
      (''lt'', py_le),
      (''ge'', py_ge),
      (''gt'', py_ge),
      (''isin'', issubset)]"

fun unmatched_loop ::
  "(string \<times> (pyval \<Rightarrow> pyval \<Rightarrow> error + bool)) list \<Rightarrow> (string \<times> pyval) list
     \<Rightarrow> (string \<times> pyval) list \<Rightarrow> string list \<Rightarrow> error + string list" where
  "unmatched_loop [] d1 d2 unmatched_keys = Inr unmatched_keys"
| "unmatched_loop ((op, operation) # rest) d1 d2 unmatched_keys =
     (case map_of d2 op of
        None \<Rightarrow> unmatched_loop rest d1 d2 unmatched_keys
      | Some v2 \<Rightarrow>
          (case map_of d1 op of
             None \<Rightarrow> unmatched_loop rest d1 d2 (unmatched_keys @ [op])
           | Some v1 \<Rightarrow>
               (case operation v1 v2 of
                  Inl e \<Rightarrow> Inl e
                | Inr b \<Rightarrow>
                    unmatched_loop rest d1 d2
                      (if b then unmatched_keys else unmatched_keys @ [op]))))"

definition is_subdict :: "(string \<times> pyval) list \<Rightarrow> (string \<times> pyval) list \<Rightarrow> error + bool" where
  "is_subdict d1 d2 =
     (if \<not> list_all (\<lambda>k. k \<in> set (map fst operators)) (map fst d1)
      then Inl (AssertionError ''Invalid keys in d1'')
      else if \<not> list_all (\<lambda>k. k \<in> set (map fst operators)) (map fst d2)
      then Inl (AssertionError ''Invalid keys in d2'')
      else (case unmatched_loop operators d1 d2 [] of
              Inl e \<Rightarrow> Inl e
            | Inr unmatched_keys \<Rightarrow> Inr (length unmatched_keys = 0)))"

text \<open>
  \<open>is_subfilter\<close>: the loop over the keys of \<open>right\<close>, with the set \<open>difference\<close> of the
  keys of \<open>left\<close> not yet found equal (\<open>set.remove\<close> raises \<open>KeyError\<close> on a missing key).
\<close>

fun subfilter_loop ::
  "query \<Rightarrow> query \<Rightarrow> bool \<Rightarrow> string list \<Rightarrow> string set \<Rightarrow> error + bool" where
  "subfilter_loop left right strict [] difference =
     Inr (\<not> strict \<or> difference \<noteq> {})"
| "subfilter_loop left right strict (k # keys) difference =
     (case map_of left k of
        None \<Rightarrow> Inr False
      | Some vl \<Rightarrow>
          (case to_dict vl of
             Inl e \<Rightarrow> Inl e
           | Inr dict_left \<Rightarrow>
               (case map_of right k of
                  None \<Rightarrow> Inl (KeyError k)
                | Some vr \<Rightarrow>
                    (case to_dict vr of
                       Inl e \<Rightarrow> Inl e
                     | Inr dict_right \<Rightarrow>
                         if strict \<and> set dict_left = set dict_right then
                           (if k \<in> difference
                            then subfilter_loop left right strict keys (difference - {k})
                            else Inl (KeyError k))
                         else
                           (case is_subdict dict_left dict_right of
                              Inl e \<Rightarrow> Inl e
                            | Inr b \<Rightarrow>
                                if \<not> b then Inr False
                                else subfilter_loop left right strict keys difference)))))"

definition is_subfilter :: "query \<Rightarrow> query \<Rightarrow> bool \<Rightarrow> error + bool" where
  "is_subfilter left right strict =
     subfilter_loop left right strict (map fst right) (set (map fst left))"

text \<open>The keys that pass the assertions of \<open>_is_subdict\<close>.\<close>

definition valid_keys :: "(string \<times> pyval) list \<Rightarrow> bool" where
  "valid_keys d = list_all (\<lambda>k. k \<in> set (map fst operators)) (map fst d)"

text \<open>
  The spec's ordering of restrictiveness, operator by operator: \<open>ne\<close> asks for equal
  operands; \<open>le\<close> and \<open>lt\<close> both ask that the left bound is at most the right bound;
  \<open>ge\<close> and \<open>gt\<close> both ask that the left bound is at least the right bound; \<open>isin\<close> asks
  that the left candidates are a subset of the right candidates.
\<close>

definition restricts :: "string \<Rightarrow> pyval \<Rightarrow> pyval \<Rightarrow> error + bool" where
  "restricts op a b =
     (if op = ''ne'' then Inr (py_eq a b)
      else if op = ''le'' \<or> op = ''lt'' then py_le a b
      else if op = ''ge'' \<or> op = ''gt'' then py_le b a
      else issubset a b)"

text \<open>
  The filter values that are subfilters of themselves: the value normalizes, the operators
  of the normalized value are those of the table of \<open>_is_subdict\<close>, no operand of \<open>ne\<close>,
  \<open>le\<close>, \<open>lt\<close>, \<open>ge\<close>, \<open>gt\<close> is \<open>nan\<close>, and the candidates of \<open>isin\<close> can be made a set.
\<close>

fun is_nan :: "pyval \<Rightarrow> bool" where
  "is_nan (PNaN i) = True"
| "is_nan v = False"




text \<open>
  The operator keys that \<open>is_subfilter\<close> can compare: those of the table of \<open>_is_subdict\<close>
  and \<open>eq\<close>, which \<open>_to_dict\<close> folds into \<open>isin\<close>.
\<close>

definition subfilter_operators :: "string list" where
  "subfilter_operators = [''eq'', ''ne'', ''le'', ''lt'', ''ge'', ''gt'', ''isin'']"

fun comparable_value :: "fvalue \<Rightarrow> bool" where
  "comparable_value (Ops d) = list_all (\<lambda>k. k \<in> set subfilter_operators) (map fst d)"
| "comparable_value (Plain v) = True"

definition comparable_filter :: "query \<Rightarrow> bool" where
  "comparable_filter f = list_all (\<lambda>(k, v). comparable_value v) f"

text \<open>
  The operators that the loop of \<open>_is_subdict\<close> adds to \<open>unmatched_keys\<close>: those present in
  \<open>d2\<close> that are missing in \<open>d1\<close> or whose operation does not return true.
\<close>

definition unmatched_operators ::
  "(string \<times> (pyval \<Rightarrow> pyval \<Rightarrow> error + bool)) list \<Rightarrow> (string \<times> pyval) list
     \<Rightarrow> (string \<times> pyval) list \<Rightarrow> string list" where
  "unmatched_operators ops d1 d2 =
     map fst
       (filter (\<lambda>(op, operation).
                  case map_of d2 op of
                    None \<Rightarrow> False
                  | Some b \<Rightarrow> (case map_of d1 op of
                                None \<Rightarrow> True
                              | Some a \<Rightarrow> operation a b \<noteq> Inr True))
          ops)"

section \<open>Concatenation: \<open>smart_concat\<close>\<close>

text \<open>
  The operands are tables (a series is a table here); \<open>obj.index.names\<close> are the names of
  the index levels, \<open>obj.index.nlevels\<close> their number, and \<open>obj.empty\<close> holds when the
  table has no row or no column.
\<close>

definition index_names :: "frame \<Rightarrow> string option list" where
  "index_names obj = map fst (df_index obj)"

definition nlevels :: "frame \<Rightarrow> nat" where
  "nlevels obj = length (df_index obj)"



text \<open>
  \<open>obj.reorder_levels(order)\<close> of the tabular engine: the index levels in the order of the
  given names; a name that the index does not have raises \<open>KeyError\<close>, a name that it has
  more than once raises \<open>ValueError\<close>.
\<close>

fun level_repr :: "string option \<Rightarrow> string" where
  "level_repr None = ''None''"
| "level_repr (Some n) = n"

definition pd_reorder_levels :: "frame \<Rightarrow> string option list \<Rightarrow> error + frame" where
  "pd_reorder_levels obj order =
     (case sequence
        (map (\<lambda>n. case map_of (df_index obj) n of
                     None \<Rightarrow> Inl (KeyError (level_repr n))
                   | Some c \<Rightarrow>
                       if count_list (index_names obj) n = 1 then Inr (n, c)
                       else Inl (ValueError ''The name occurs multiple times''))
             order) of
        Inl e \<Rightarrow> Inl e
      | Inr idx \<Rightarrow> Inr (obj\<lparr>df_index := idx\<rparr>))"

text \<open>
  \<open>_reorder_levels\<close>: the two explicit errors, then the reordering. The names joined into
  the message of the second error must be strings: an unnamed level among them makes
  \<open>''.join\<close> raise \<open>TypeError\<close>.
\<close>

definition reorder_levels :: "frame \<Rightarrow> string option list \<Rightarrow> error + frame" where
  "reorder_levels obj order =
     (if length order \<noteq> nlevels obj then Inl (LengthOfOrder (nlevels obj) (length order))
      else (let diff = filter (\<lambda>n. n \<notin> set (index_names obj)) order in
        if diff \<noteq> [] then
          (if None \<in> set diff then Inl TypeError else Inl (LevelsNotFound (set (map the diff))))
        else pd_reorder_levels obj order))"

text \<open>
  \<open>_ordered\<close> with its nonlocal \<open>order\<close>, which the first operand sets; the operands are
  taken one by one from the iterable, an item of which may fail to be produced.
\<close>

definition ordered :: "frame \<Rightarrow> string option list option \<Rightarrow> (error + frame) \<times> string option list" where
  "ordered obj order =
     (let order' = (case order of None \<Rightarrow> index_names obj | Some names \<Rightarrow> names)
      in (if order' = index_names obj then Inr obj else reorder_levels obj order', order'))"






text \<open>
  An operand is brought to the order of levels \<open>order\<close> when \<open>_ordered\<close> returns it, as it
  is or with its levels reordered.
\<close>

definition brought_to_order :: "string option list \<Rightarrow> frame \<Rightarrow> bool" where
  "brought_to_order order obj =
     (case fst (ordered obj (Some order)) of Inl e \<Rightarrow> False | Inr obj' \<Rightarrow> True)"


section \<open>An engine and tables for the examples\<close>

text \<open>
  An engine on the cells, after pandas: a list operand of \<open>eq\<close>, \<open>ne\<close>, \<open>le\<close>, \<open>lt\<close>, \<open>ge\<close>,
  \<open>gt\<close> is compared with the series position by position and must have its length; any
  other operand is compared with every cell; \<open>isin\<close> tests the membership of every cell in
  a list. Regular expressions are not given: \<open>regex\<close> raises here. The theorems hold for
  every engine; this one is used where a theorem is evaluated on a concrete table.
\<close>

definition py_lt :: "pyval \<Rightarrow> pyval \<Rightarrow> error + bool" where
  "py_lt a b =
     (case py_le a b of
        Inl e \<Rightarrow> Inl e
      | Inr l \<Rightarrow> (case py_le b a of Inl e \<Rightarrow> Inl e | Inr g \<Rightarrow> Inr (l \<and> \<not> g)))"

definition py_cell :: "string \<Rightarrow> pyval \<Rightarrow> pyval \<Rightarrow> error + bool" where
  "py_cell op x v =
     (if op = ''eq'' then Inr (py_eq x v)
      else if op = ''ne'' then Inr (\<not> py_eq x v)
      else if op = ''le'' then py_le x v
      else if op = ''lt'' then py_lt x v
      else if op = ''ge'' then py_le v x
      else if op = ''gt'' then py_lt v x
      else Inl TypeError)"

definition py_engine :: engine where
  "py_engine op obj v =
     (if op = ''isin'' then
        (case v of PList xs \<Rightarrow> Inr (\<lambda>i. cells obj ! i \<in> set xs) | _ \<Rightarrow> Inl TypeError)
      else
        (case sequence
           (case v of
              PList ys \<Rightarrow>
                if length ys = length (cells obj)
                then map (\<lambda>(x, y). py_cell op x y) (zip (cells obj) ys)
                else [Inl (ValueError ''Lengths must match to compare'')]
            | _ \<Rightarrow> map (\<lambda>x. py_cell op x v) (cells obj)) of
           Inl e \<Rightarrow> Inl e
         | Inr m \<Rightarrow> Inr (\<lambda>i. m ! i)))"

definition int_column :: "int list \<Rightarrow> column" where
  "int_column ns = \<lparr> dtype = ''int64'', cells = map PInt ns \<rparr>"

definition str_column :: "string list \<Rightarrow> column" where
  "str_column ss = \<lparr> dtype = ''object'', cells = map PStr ss \<rparr>"

text \<open>A table with one column and a series, both with two rows.\<close>

definition example_frame :: frame where
  "example_frame = \<lparr> df_columns = [(''a'', int_column [1, 2])],
                       df_index = [(Some ''i'', int_column [10, 20])] \<rparr>"

definition example_series :: series where
  "example_series = \<lparr> s_index = [(Some ''i'', int_column [10, 20])],
                        s_values = int_column [1, 2] \<rparr>"

text \<open>
  The table of the repository's test of the cache: four columns, eight rows, an unnamed
  index; and the first two queries of that test, whose values are the objects 0 to 3 of
  the heap \<open>test_heap\<close>.
\<close>

definition simulations_table :: frame where
  "simulations_table =
     \<lparr> df_columns =
         [(''simulation_id'', int_column [0, 0, 0, 0, 1, 1, 1, 1]),
          (''circuit_id'', int_column [0, 0, 0, 0, 0, 0, 0, 0]),
          (''window'', str_column [''w0'', ''w0'', ''w1'', ''w1'', ''w0'', ''w0'', ''w1'', ''w1'']),
          (''trial'', int_column [0, 1, 0, 1, 0, 1, 0, 1])],
       df_index = [(None, int_column [0, 1, 2, 3, 4, 5, 6, 7])] \<rparr>"

definition heap_of :: "fvalue list \<Rightarrow> heap" where
  "heap_of values r = (if r < length values then values ! r else Plain (PList []))"

definition test_heap :: heap where
  "test_heap = heap_of [Plain (PInt 1), Plain (PInt 0), Plain (PStr ''w0''), Plain (PInt 1)]"

definition window_query :: object_query where
  "window_query = [(''simulation_id'', 0), (''circuit_id'', 1), (''window'', 2)]"

definition trial_query :: object_query where
  "trial_query = window_query @ [(''trial'', 3)]"

text \<open>
  A table with two columns and three rows, and tables with index levels of given names and
  no rows.
\<close>

definition pairs_table :: frame where
  "pairs_table = \<lparr> df_columns = [(''a'', int_column [1, 2, 1]), (''b'', int_column [10, 20, 30])],
                     df_index = [(None, int_column [0, 1, 2])] \<rparr>"



section \<open>Reference semantics of a cached query\<close>

text \<open>
  Filtering a table directly by the fields of a query, one after the other: each field
  filters the rows that the fields before it kept.
\<close>

fun filter_in_order :: "engine \<Rightarrow> frame \<Rightarrow> query \<Rightarrow> error + frame" where
  "filter_in_order E d [] = Inr d"
| "filter_in_order E d ((k, v) # q) =
     (case etl_q E d [(k, v)] of Inl e \<Rightarrow> Inl e | Inr d' \<Rightarrow> filter_in_order E d' q)"

text \<open>The query that the caller's dictionary stands for at the time of a call.\<close>

definition deref :: "heap \<Rightarrow> object_query \<Rightarrow> query" where
  "deref h q = map (\<lambda>(k, r). (k, h r)) q"

text \<open>
  The fields that are left when the unknown keys are ignored: those named as a column, or
  as an index level whose name is neither \<open>None\<close> nor the empty string.
\<close>

definition known_fields :: "frame \<Rightarrow> (string \<times> 'v) list \<Rightarrow> (string \<times> 'v) list" where
  "known_fields d q =
     filter (\<lambda>(k, v). k \<in> fst ` set (df_columns d) \<or> (k \<noteq> [] \<and> Some k \<in> fst ` set (df_index d))) q"

text \<open>
  The state of a cache after a sequence of query calls, each made with the heap of its
  time, whatever the calls returned.
\<close>

fun run_queries ::
  "engine \<Rightarrow> CachedDataFrame \<Rightarrow> (heap \<times> object_query \<times> bool) list \<Rightarrow> CachedDataFrame" where
  "run_queries E self [] = self"
| "run_queries E self ((h, q, ignore_unknown_keys) # calls) =
     run_queries E (snd (query E h self q ignore_unknown_keys)) calls"

text \<open>
  No object that was given as a query value in one of the calls has another value in the
  heap \<open>h\<close> than it had at that call.
\<close>

definition unchanged_values :: "heap \<Rightarrow> (heap \<times> object_query \<times> bool) list \<Rightarrow> bool" where
  "unchanged_values h calls =
     list_all (\<lambda>(h', q, ignore_unknown_keys). list_all (\<lambda>(k, r). h' r = h r) q) calls"

text \<open>
  The invariant of the stack, for the values that the objects have in the heap \<open>h\<close>: the
  table of each entry is the table below it (the base table for the first entry) filtered
  by the key and value of the entry.
\<close>

fun chain_ok :: "engine \<Rightarrow> heap \<Rightarrow> frame \<Rightarrow> CachedItem list \<Rightarrow> bool" where
  "chain_ok E h d [] = True"
| "chain_ok E h d (item # rest) =
     (etl_q E d [(key item, h (val item))] = Inr (df item) \<and> chain_ok E h (df item) rest)"

definition stack_top :: "frame \<Rightarrow> CachedItem list \<Rightarrow> frame" where
  "stack_top d stack = (if stack \<noteq> [] then df (last stack) else d)"

definition cache_ok :: "engine \<Rightarrow> heap \<Rightarrow> frame \<Rightarrow> CachedDataFrame \<Rightarrow> bool" where
  "cache_ok E h d self =
     (cdf_df self = d
      \<and> set (cdf_valid_keys self)
          = {k. k \<in> fst ` set (df_columns d) \<or> (k \<noteq> [] \<and> Some k \<in> fst ` set (df_index d))}
      \<and> chain_ok E h d (cdf_stack self))"

text \<open>The series that a field name denotes in a table: a column first, else an index level.\<close>

definition field_series :: "frame \<Rightarrow> string \<Rightarrow> error + column" where
  "field_series d k =
     (case mapping d k of
        None \<Rightarrow> Inl (KeyError k)
      | Some Columns \<Rightarrow> get_column d k
      | Some Index \<Rightarrow> get_level_values (df_index d) k)"

section \<open>Properties of the prefix cache\<close>

lemma lmc_loop_count: "lmc_loop ne count xs ys = count + lmc_loop ne 0 xs ys"
proof (induction xs arbitrary: count ys)
  case Nil
  then show ?case by simp
next
  case (Cons x xs)
  show ?case
  proof (cases ys)
    case Nil
    then show ?thesis by simp
  next
    case (Cons y ys')
    from Cons.IH [of "count + 1" ys'] Cons.IH [of "0 + 1" ys'] Cons
    show ?thesis by simp
  qed
qed

lemma longest_match_count_Cons:
  "longest_match_count ne (x # xs) (y # ys) =
     (if ne x y then 0 else Suc (longest_match_count ne xs ys))"
  using lmc_loop_count [of ne "0 + 1" xs ys] by (simp add: longest_match_count_def)

lemma longest_match_count_Nil:
  "longest_match_count ne [] ys = 0" "longest_match_count ne xs [] = 0"
  by (cases xs; simp add: longest_match_count_def)+

lemma min_counts_joint:
  "min (longest_match_count (\<noteq>) (map key stack) (map fst q))
       (longest_match_count (\<lambda>a b. \<not> value_eq (h a) (h b)) (map val stack) (map snd q))
   = joint_prefix_length h stack q"
  by (induction h stack q rule: joint_prefix_length.induct)
    (simp_all add: longest_match_count_Cons longest_match_count_Nil)

text \<open>
  C2: in \<open>CachedDataFrame.query\<close>, the minimum of the longest common prefix of the stack
  keys with the query keys and of the stack values with the query values is, for every
  stack and every query, the length of the longest prefix in which both the key and the
  value match at every position; a position where only one of the two matches ends it.
\<close>

theorem matched_is_joint_prefix:
  "min (longest_keys_count self (map fst q)) (longest_values_count h self (map snd q))
   = joint_prefix_length h (cdf_stack self) q"
  by (simp add: longest_keys_count_def longest_values_count_def min_counts_joint)

text \<open>
  C9: a query with the empty filter dictionary, in any cache state, empties the stack and
  returns the base table as it is.
\<close>

theorem query_empty:
  "query E h self [] ignore_unknown_keys
   = (Inr (cdf_df self), self\<lparr>cdf_matched := 0, cdf_stack := []\<rparr>)"
  by (simp add: query_def longest_keys_count_def longest_values_count_def
      longest_match_count_Nil query_loop.simps)

section \<open>Properties of the subfilter relation\<close>

text \<open>
  C10: for every filter dictionary \<open>f\<close>, \<open>is_subfilter(f, {}, strict=False)\<close> is true, and
  \<open>is_subfilter(f, {}, strict=True)\<close> is true exactly when \<open>f\<close> has at least one field.
\<close>

theorem subfilter_of_empty:
  "is_subfilter f [] False = Inr True \<and> is_subfilter f [] True = Inr (f \<noteq> [])"
  by (simp add: is_subfilter_def)

lemma operator_keys: "map fst operators = [''ne'', ''le'', ''lt'', ''ge'', ''gt'', ''isin'']"
  by (simp add: operators_def)

lemma list_all_mem: "list_all P xs \<Longrightarrow> x \<in> set xs \<Longrightarrow> P x"
  by (simp add: list_all_iff)

lemma operators_restricts:
  "(op, operation) \<in> set operators \<Longrightarrow> operation a b = restricts op a b"
  by (auto simp: operators_def restricts_def py_ge_def)

lemma valid_keys_lookup:
  assumes "valid_keys d" "map_of d op = Some a"
  shows "\<exists>operation. (op, operation) \<in> set operators"
proof -
  from assms(2) have "(op, a) \<in> set d" by (rule map_of_SomeD)
  then have "op \<in> set (map fst d)" by force
  with assms(1) have "op \<in> set (map fst operators)"
    unfolding valid_keys_def by (rule list_all_mem)
  then show ?thesis by auto
qed

lemma operators_functional:
  "(op, f) \<in> set operators \<Longrightarrow> (op, g) \<in> set operators \<Longrightarrow> f = g"
  by (auto simp: operators_def)

text \<open>The loop of \<open>_is_subdict\<close>: it returns when no operation raises, with the unmatched operators.\<close>

lemma unmatched_loop_Inr_iff:
  "unmatched_loop ops d1 d2 um = Inr um' \<longleftrightarrow>
     (\<forall>(op, operation) \<in> set ops. \<forall>a b. map_of d1 op = Some a \<and> map_of d2 op = Some b
        \<longrightarrow> (\<exists>r. operation a b = Inr r))
     \<and> um' = um @ unmatched_operators ops d1 d2"
proof (induction ops arbitrary: um)
  case Nil
  then show ?case by (auto simp: unmatched_operators_def)
next
  case (Cons p ops)
  obtain op operation where p: "p = (op, operation)" by (cases p)
  note IH = Cons.IH
  show ?case
  proof (cases "map_of d2 op")
    case None
    then show ?thesis by (simp add: p IH unmatched_operators_def)
  next
    case b: (Some b)
    show ?thesis
    proof (cases "map_of d1 op")
      case None
      with b show ?thesis by (simp add: p IH unmatched_operators_def)
    next
      case a: (Some a)
      show ?thesis
      proof (cases "operation a b")
        case (Inl e)
        with a b show ?thesis by (auto simp: p)
      next
        case (Inr r)
        with a b show ?thesis by (cases r) (auto simp: p IH unmatched_operators_def)
      qed
    qed
  qed
qed

lemma unmatched_operators_Nil_iff:
  "unmatched_operators ops d1 d2 = [] \<longleftrightarrow>
     (\<forall>(op, operation) \<in> set ops. \<forall>b. map_of d2 op = Some b
        \<longrightarrow> (\<exists>a. map_of d1 op = Some a \<and> operation a b = Inr True))"
  unfolding unmatched_operators_def map_is_Nil_conv filter_empty_conv
  by (fastforce split: option.splits)

lemma is_subdict_Inr_iff:
  assumes "valid_keys d1" "valid_keys d2"
  shows "is_subdict d1 d2 = Inr r \<longleftrightarrow>
     (\<forall>op a b. map_of d1 op = Some a \<and> map_of d2 op = Some b \<longrightarrow> (\<exists>r'. restricts op a b = Inr r'))
     \<and> r = (\<forall>op b. map_of d2 op = Some b
              \<longrightarrow> (\<exists>a. map_of d1 op = Some a \<and> restricts op a b = Inr True))"
proof -
  have noerr: "(\<forall>(op, operation) \<in> set operators. \<forall>a b.
                  map_of d1 op = Some a \<and> map_of d2 op = Some b \<longrightarrow> (\<exists>r. operation a b = Inr r))
      \<longleftrightarrow> (\<forall>op a b. map_of d1 op = Some a \<and> map_of d2 op = Some b
              \<longrightarrow> (\<exists>r'. restricts op a b = Inr r'))"
    (is "?L \<longleftrightarrow> ?R")
  proof
    assume l: ?L
    show ?R
    proof (intro allI impI)
      fix op a b assume ab: "map_of d1 op = Some a \<and> map_of d2 op = Some b"
      then obtain operation where o: "(op, operation) \<in> set operators"
        using valid_keys_lookup [OF assms(1)] by blast
      with l ab have "\<exists>r. operation a b = Inr r" by blast
      with o show "\<exists>r'. restricts op a b = Inr r'" by (simp add: operators_restricts)
    qed
  next
    assume ?R
    then show ?L by (auto simp: operators_restricts)
  qed
  have sat: "(\<forall>(op, operation) \<in> set operators. \<forall>b. map_of d2 op = Some b
                \<longrightarrow> (\<exists>a. map_of d1 op = Some a \<and> operation a b = Inr True))
      \<longleftrightarrow> (\<forall>op b. map_of d2 op = Some b
              \<longrightarrow> (\<exists>a. map_of d1 op = Some a \<and> restricts op a b = Inr True))"
    (is "?L \<longleftrightarrow> ?R")
  proof
    assume l: ?L
    show ?R
    proof (intro allI impI)
      fix op b assume b: "map_of d2 op = Some b"
      then obtain operation where o: "(op, operation) \<in> set operators"
        using valid_keys_lookup [OF assms(2)] by blast
      with l b have "\<exists>a. map_of d1 op = Some a \<and> operation a b = Inr True" by blast
      with o show "\<exists>a. map_of d1 op = Some a \<and> restricts op a b = Inr True"
        by (simp add: operators_restricts)
    qed
  next
    assume ?R
    then show ?L by (auto simp: operators_restricts)
  qed
  have "is_subdict d1 d2 = Inr r \<longleftrightarrow>
          (\<exists>um. unmatched_loop operators d1 d2 [] = Inr um \<and> r = (um = []))"
    using assms by (auto simp: is_subdict_def valid_keys_def split: sum.splits)
  also have "\<dots> \<longleftrightarrow>
      (\<forall>(op, operation) \<in> set operators. \<forall>a b.
          map_of d1 op = Some a \<and> map_of d2 op = Some b \<longrightarrow> (\<exists>r. operation a b = Inr r))
      \<and> r = (unmatched_operators operators d1 d2 = [])"
    by (auto simp: unmatched_loop_Inr_iff)
  finally show ?thesis
    unfolding unmatched_operators_Nil_iff noerr sat .
qed

text \<open>The order of Python on strings and on lists, said without the recursion of the model.\<close>

lemma str_le_lexord:
  "str_le s t \<longleftrightarrow> s = t \<or> (s, t) \<in> lexord {(c, d). (of_char c :: nat) < of_char d}"
proof (induction s t rule: str_le.induct)
  case (1 ys)
  then show ?case by (cases ys) simp_all
qed auto

lemma list_le_first_difference:
  "list_le xs ys =
     (let n = length (takeWhile (\<lambda>(x, y). x = y) (zip xs ys))
      in if n = length xs then Inr True
         else if n = length ys then Inr False
         else py_le (xs ! n) (ys ! n))"
proof (induction xs arbitrary: ys)
  case Nil
  then show ?case by simp
next
  case (Cons x xs)
  show ?case
  proof (cases ys)
    case Nil
    then show ?thesis by simp
  next
    case (Cons y ys')
    with Cons.IH [of ys'] show ?thesis by (simp add: Let_def)
  qed
qed

lemma issubset_lists:
  "issubset (PList xs) (PList ys) =
     (if list_all hashable xs \<and> list_all hashable ys then Inr (set xs \<subseteq> set ys)
      else Inl TypeError)"
  by (simp add: issubset_def)

lemma py_eq_iff: "py_eq a b \<longleftrightarrow> a = b \<and> \<not> is_nan a"
  by (cases a) auto

text \<open>
  C4: the per-operator restrictiveness check of \<open>is_subfilter\<close> (\<open>_is_subdict\<close>), for every
  pair of normalized filter values \<open>d1\<close> (left) and \<open>d2\<close> (right), with any number of
  operators. It answers true exactly when every operator of the right value is present in
  the left value with an operand that restricts the right one, and false exactly when no
  comparison of two operands raises and some operator of the right value is missing in the
  left value or not restricted by it. An operand restricts another one: for \<open>ne\<close>, when the
  two are equal (and not \<open>nan\<close>); for \<open>le\<close> and for \<open>lt\<close> alike, when the left bound is \<open>\<le>\<close> the
  right bound (non-strict); for \<open>ge\<close> and for \<open>gt\<close> alike, when the right bound is \<open>\<le>\<close> the
  left bound; for \<open>isin\<close>, exactly when the set of the left candidates is a subset of the set
  of the right candidates. The order \<open>\<le>\<close> is that of Python: of the reals on numbers (false
  with \<open>nan\<close>), lexicographic by code point on strings, and on lists decided at the first
  position where the two lists differ.
\<close>

theorem per_operator_restrictiveness:
  assumes "valid_keys d1" and "valid_keys d2"
  shows "(is_subdict d1 d2 = Inr True) =
           (\<forall>op b. map_of d2 op = Some b
              \<longrightarrow> (\<exists>a. map_of d1 op = Some a \<and> restricts op a b = Inr True))
       \<and> (is_subdict d1 d2 = Inr False) =
           ((\<forall>op a b. map_of d1 op = Some a \<and> map_of d2 op = Some b
               \<longrightarrow> (\<exists>r. restricts op a b = Inr r))
            \<and> (\<exists>op b. map_of d2 op = Some b
                 \<and> (\<forall>a. map_of d1 op = Some a \<longrightarrow> restricts op a b \<noteq> Inr True)))
       \<and> restricts ''ne'' u v = Inr (u = v \<and> \<not> is_nan u)
       \<and> restricts ''le'' u v = py_le u v \<and> restricts ''lt'' u v = py_le u v
       \<and> restricts ''ge'' u v = py_le v u \<and> restricts ''gt'' u v = py_le v u
       \<and> restricts ''isin'' u v = issubset u v
       \<and> py_le (PNum x) (PNum y) = Inr (x \<le> y)
       \<and> py_le (PNaN i) (PNum y) = Inr False \<and> py_le (PNum x) (PNaN i) = Inr False
       \<and> py_le (PStr s) (PStr t) =
           Inr (s = t \<or> (s, t) \<in> lexord {(c, d). (of_char c :: nat) < of_char d})
       \<and> py_le (PList xs) (PList ys) =
           (let n = length (takeWhile (\<lambda>(x, y). x = y) (zip xs ys))
            in if n = length xs then Inr True
               else if n = length ys then Inr False
               else py_le (xs ! n) (ys ! n))
       \<and> issubset (PList xs) (PList ys) =
           (if list_all hashable xs \<and> list_all hashable ys then Inr (set xs \<subseteq> set ys)
            else Inl TypeError)"
proof -
  have t: "(is_subdict d1 d2 = Inr True) =
           (\<forall>op b. map_of d2 op = Some b
              \<longrightarrow> (\<exists>a. map_of d1 op = Some a \<and> restricts op a b = Inr True))"
    unfolding is_subdict_Inr_iff [OF assms, of True] by fastforce
  have f: "(is_subdict d1 d2 = Inr False) =
           ((\<forall>op a b. map_of d1 op = Some a \<and> map_of d2 op = Some b
               \<longrightarrow> (\<exists>r. restricts op a b = Inr r))
            \<and> (\<exists>op b. map_of d2 op = Some b
                 \<and> (\<forall>a. map_of d1 op = Some a \<longrightarrow> restricts op a b \<noteq> Inr True)))"
    unfolding is_subdict_Inr_iff [OF assms, of False] by fastforce
  have r: "restricts ''ne'' u v = Inr (u = v \<and> \<not> is_nan u)"
      "restricts ''le'' u v = py_le u v" "restricts ''lt'' u v = py_le u v"
      "restricts ''ge'' u v = py_le v u" "restricts ''gt'' u v = py_le v u"
      "restricts ''isin'' u v = issubset u v"
    by (simp_all add: restricts_def py_eq_iff)
  have n: "py_le (PNum x) (PNum y) = Inr (x \<le> y)"
      "py_le (PNaN i) (PNum y) = Inr False" "py_le (PNum x) (PNaN i) = Inr False"
    by simp_all
  have s: "py_le (PStr s) (PStr t) =
           Inr (s = t \<or> (s, t) \<in> lexord {(c, d). (of_char c :: nat) < of_char d})"
    by (simp add: str_le_lexord)
  have l: "py_le (PList xs) (PList ys) =
           (let n = length (takeWhile (\<lambda>(x, y). x = y) (zip xs ys))
            in if n = length xs then Inr True
               else if n = length ys then Inr False
               else py_le (xs ! n) (ys ! n))"
    using list_le_first_difference [of xs ys] by simp
  note i = issubset_lists [of xs ys]
  from t f r n s l i show ?thesis by (intro conjI)
qed

theorem per_operator_restrictiveness_witness:
  "valid_keys [(''le'', PInt 9), (''ge'', PInt 1)]
   \<and> valid_keys [(''le'', PInt 4), (''ge'', PInt 2)]
   \<and> is_subdict [(''le'', PInt 9), (''ge'', PInt 1)] [(''le'', PInt 4), (''ge'', PInt 2)]
       = Inr False
   \<and> valid_keys [(''lt'', PInt 4), (''gt'', PInt 2), (''isin'', PList [PInt 3])]
   \<and> is_subdict [(''lt'', PInt 4), (''gt'', PInt 2), (''isin'', PList [PInt 3])]
       [(''le'', PInt 4), (''ge'', PInt 2)] = Inr False
   \<and> is_subdict [(''le'', PInt 3), (''ge'', PInt 2), (''ne'', PStr ''a'')]
       [(''le'', PInt 4), (''ge'', PInt 2)] = Inr True"
proof -
  have v: "valid_keys [(''le'', PInt 9), (''ge'', PInt 1)]"
      "valid_keys [(''le'', PInt 4), (''ge'', PInt 2)]"
      "valid_keys [(''lt'', PInt 4), (''gt'', PInt 2), (''isin'', PList [PInt 3])]"
      "valid_keys [(''le'', PInt 3), (''ge'', PInt 2), (''ne'', PStr ''a'')]"
    by (simp_all add: valid_keys_def operators_def)
  note a = per_operator_restrictiveness [OF v(1) v(2), THEN conjunct2, THEN conjunct1]
  note b = per_operator_restrictiveness [OF v(3) v(2), THEN conjunct2, THEN conjunct1]
  note c = per_operator_restrictiveness [OF v(4) v(2), THEN conjunct1]
  have "is_subdict [(''le'', PInt 9), (''ge'', PInt 1)] [(''le'', PInt 4), (''ge'', PInt 2)]
       = Inr False"
    unfolding a by (auto simp: restricts_def intro: exI [of _ "''le''"])
  moreover have "is_subdict [(''lt'', PInt 4), (''gt'', PInt 2), (''isin'', PList [PInt 3])]
       [(''le'', PInt 4), (''ge'', PInt 2)] = Inr False"
    unfolding b by (auto simp: restricts_def intro: exI [of _ "''le''"])
  moreover have "is_subdict [(''le'', PInt 3), (''ge'', PInt 2), (''ne'', PStr ''a'')]
       [(''le'', PInt 4), (''ge'', PInt 2)] = Inr True"
    unfolding c by (auto simp: restricts_def)
  ultimately show ?thesis using v by simp
qed
















lemma py_le_no_assertion:
  "py_le a b \<noteq> Inl (AssertionError msg)" "list_le xs ys \<noteq> Inl (AssertionError msg)"
  by (induction a b and xs ys rule: py_le_list_le.induct) simp_all

lemma issubset_no_assertion: "issubset a b \<noteq> Inl (AssertionError msg)"
  by (cases a; cases b) (simp_all add: issubset_def)

lemma unmatched_loop_no_assertion:
  assumes "\<And>op operation a b. (op, operation) \<in> set ops
             \<Longrightarrow> operation a b \<noteq> Inl (AssertionError msg)"
  shows "unmatched_loop ops d1 d2 um \<noteq> Inl (AssertionError msg)"
  using assms
proof (induction ops arbitrary: um)
  case Nil
  then show ?case by simp
next
  case (Cons p ops)
  obtain op operation where p: "p = (op, operation)" by (cases p)
  have rest: "unmatched_loop ops d1 d2 um \<noteq> Inl (AssertionError msg)" for um
  proof (rule Cons.IH)
    fix op' operation' a b
    assume "(op', operation') \<in> set ops"
    then have "(op', operation') \<in> set (p # ops)" by simp
    then show "operation' a b \<noteq> Inl (AssertionError msg)" by (rule Cons.prems)
  qed
  have this_op: "operation a b \<noteq> Inl (AssertionError msg)" for a b
    by (rule Cons.prems [of op operation]) (simp add: p)
  show ?case
    using rest this_op by (auto simp: p split: option.splits sum.splits)
qed

lemma is_subdict_no_assertion:
  assumes "valid_keys d1" "valid_keys d2"
  shows "is_subdict d1 d2 \<noteq> Inl (AssertionError msg)"
proof -
  have "operation a b \<noteq> Inl (AssertionError msg)"
    if "(op, operation) \<in> set operators" for op operation a b
    using that py_le_no_assertion(1) issubset_no_assertion
    by (auto simp: operators_def py_ge_def)
  then have "unmatched_loop operators d1 d2 [] \<noteq> Inl (AssertionError msg)"
    by (rule unmatched_loop_no_assertion)
  with assms show ?thesis
    by (auto simp: is_subdict_def valid_keys_def split: sum.splits)
qed

lemma py_contains_no_assertion: "py_contains c v \<noteq> Inl (AssertionError msg)"
  by (cases c; cases v) simp_all

lemma to_dict_Ops_cases:
  assumes "to_dict (Ops obj) = r"
  obtains (no_eq) "map_of obj ''eq'' = None" "r = Inr obj"
  | (no_isin) e where "map_of obj ''eq'' = Some e"
      "map_of (AList.delete ''eq'' obj) ''isin'' = None"
      "r = Inr (AList.update ''isin'' (PList [e]) (AList.delete ''eq'' obj))"
  | (error) e c err where "map_of obj ''eq'' = Some e"
      "map_of (AList.delete ''eq'' obj) ''isin'' = Some c"
      "py_contains c e = Inl err" "r = Inl err"
  | (folded) e c b where "map_of obj ''eq'' = Some e"
      "map_of (AList.delete ''eq'' obj) ''isin'' = Some c"
      "py_contains c e = Inr b"
      "r = Inr (AList.update ''isin'' (PList (if b then [e] else [])) (AList.delete ''eq'' obj))"
proof (cases "map_of obj ''eq''")
  case None
  with assms no_eq show ?thesis by simp
next
  case (Some e)
  show ?thesis
  proof (cases "map_of (AList.delete ''eq'' obj) ''isin''")
    case None
    with Some assms no_isin show ?thesis by simp
  next
    case c: (Some c)
    show ?thesis
    proof (cases "py_contains c e")
      case (Inl err)
      with Some c assms error show ?thesis by simp
    next
      case (Inr b)
      with Some c assms folded [of e c b] show ?thesis by simp
    qed
  qed
qed

lemma to_dict_no_assertion: "to_dict v \<noteq> Inl (AssertionError msg)"
proof (cases v)
  case (Plain p)
  then show ?thesis by (cases p) simp_all
next
  case (Ops obj)
  have "to_dict (Ops obj) \<noteq> Inl (AssertionError msg)"
  proof
    assume a: "to_dict (Ops obj) = Inl (AssertionError msg)"
    then show False
    proof (cases rule: to_dict_Ops_cases)
      case (error e c err)
      then show ?thesis using py_contains_no_assertion [of c e msg] by simp
    qed simp_all
  qed
  with Ops show ?thesis by simp
qed

lemma to_dict_valid_keys:
  assumes "comparable_value v" "to_dict v = Inr d"
  shows "valid_keys d"
proof (cases v)
  case (Plain p)
  with assms(2) show ?thesis
    by (cases p) (auto simp: valid_keys_def operator_keys)
next
  case (Ops obj)
  with assms(1) have keys: "\<And>k. k \<in> fst ` set obj \<Longrightarrow> k \<in> set subfilter_operators"
    by (auto simp: list_all_iff)
  have del: "k \<in> set (map fst operators)" if "k \<in> fst ` set (AList.delete ''eq'' obj)" for k
  proof -
    from that have "k \<in> fst ` set obj" "k \<noteq> ''eq''"
      by (auto simp: AList.delete_eq)
    with keys [of k] show ?thesis
      by (auto simp: subfilter_operators_def operator_keys)
  qed
  have upd: "valid_keys (AList.update ''isin'' x (AList.delete ''eq'' obj))" for x
    unfolding valid_keys_def list_all_iff AList.update_keys
    using del by (auto simp: operator_keys)
  from assms(2) Ops have "to_dict (Ops obj) = Inr d" by simp
  then show ?thesis
  proof (cases rule: to_dict_Ops_cases)
    case no_eq
    then have "''eq'' \<notin> fst ` set obj" by (simp add: map_of_eq_None_iff)
    then have "AList.delete ''eq'' obj = obj" by simp
    with del no_eq show ?thesis
      by (simp add: valid_keys_def list_all_iff)
  next
    case (no_isin e)
    with upd show ?thesis by simp
  next
    case (error e c err)
    then show ?thesis by simp
  next
    case (folded e c b)
    with upd show ?thesis by simp
  qed
qed

lemma subfilter_loop_no_assertion:
  assumes "comparable_filter left" "comparable_filter right"
  shows "subfilter_loop left right strict keys D \<noteq> Inl (AssertionError msg)"
proof (induction keys arbitrary: D)
  case Nil
  then show ?case by simp
next
  case (Cons k keys)
  have cmp: "comparable_value v" if "map_of f k = Some v" "comparable_filter f" for f v
  proof -
    from that(1) have "(k, v) \<in> set f" by (rule map_of_SomeD)
    with that(2) show ?thesis by (auto simp: comparable_filter_def list_all_iff)
  qed
  show ?case
  proof (cases "map_of left k")
    case None
    then show ?thesis by simp
  next
    case vl: (Some vl)
    show ?thesis
    proof (cases "to_dict vl")
      case (Inl e)
      with vl to_dict_no_assertion [of vl msg] show ?thesis by auto
    next
      case dl: (Inr d1)
      have v1: "valid_keys d1" using cmp [OF vl assms(1)] dl by (rule to_dict_valid_keys)
      show ?thesis
      proof (cases "map_of right k")
        case None
        with vl dl show ?thesis by simp
      next
        case vr: (Some vr)
        show ?thesis
        proof (cases "to_dict vr")
          case (Inl e)
          with vl dl vr to_dict_no_assertion [of vr msg] show ?thesis by auto
        next
          case dr: (Inr d2)
          have v2: "valid_keys d2" using cmp [OF vr assms(2)] dr by (rule to_dict_valid_keys)
          show ?thesis
            using vl dl vr dr Cons.IH is_subdict_no_assertion [OF v1 v2, of msg]
            by (auto split: sum.splits)
        qed
      qed
    qed
  qed
qed

lemma is_subfilter_first_key_assertion:
  assumes "map_of left k = Some vl" "to_dict vl = Inr d1" "to_dict vr = Inr d2"
    "\<not> (strict \<and> set d1 = set d2)" "\<not> (valid_keys d1 \<and> valid_keys d2)"
  shows "is_subfilter left ((k, vr) # rest) strict
         = Inl (AssertionError (if valid_keys d1 then ''Invalid keys in d2''
                                else ''Invalid keys in d1''))"
  using assms by (auto simp: is_subfilter_def is_subdict_def valid_keys_def)

text \<open>
  C6, as the code has it: \<open>is_subfilter\<close> fails with the assertion error when the
  comparison of a field reaches \<open>_is_subdict\<close> with a normalized value, of either argument,
  that has an operator key outside \<open>ne\<close>, \<open>le\<close>, \<open>lt\<close>, \<open>ge\<close>, \<open>gt\<close>, \<open>isin\<close>, as it
  does at the first field of \<open>right\<close> unless the strict comparison finds the two
  normalized values equal; when every operator dict of both arguments uses only the keys
  \<open>eq\<close>, \<open>ne\<close>, \<open>le\<close>, \<open>lt\<close>, \<open>ge\<close>, \<open>gt\<close>, \<open>isin\<close>, this failure does not occur.
\<close>

theorem is_subfilter_assertion:
  "(comparable_filter left \<and> comparable_filter right
      \<longrightarrow> is_subfilter left right strict \<noteq> Inl (AssertionError msg))
   \<and> (map_of left k = Some vl \<and> to_dict vl = Inr d1 \<and> to_dict vr = Inr d2
       \<and> \<not> (strict \<and> set d1 = set d2) \<and> \<not> (valid_keys d1 \<and> valid_keys d2)
      \<longrightarrow> is_subfilter left ((k, vr) # rest) strict
          = Inl (AssertionError (if valid_keys d1 then ''Invalid keys in d2''
                                 else ''Invalid keys in d1'')))"
  using subfilter_loop_no_assertion [of left right strict "map fst right" "set (map fst left)" msg]
    is_subfilter_first_key_assertion [of left k vl d1 vr d2 strict rest]
  by (simp add: is_subfilter_def)

theorem is_subfilter_assertion_witness:
  "is_subfilter [(''key'', Ops [(''eq'', PInt 1)])] [(''key'', Ops [(''isin'', PList [PInt 1])])] False
     \<noteq> Inl (AssertionError ''Invalid keys in d1'')
   \<and> is_subfilter [(''key'', Ops [(''le'', PInt 1)])] [(''key'', Ops [(''unknown'', PInt 1)])] False
     = Inl (AssertionError ''Invalid keys in d2'')"
proof -
  have "comparable_filter [(''key'', Ops [(''eq'', PInt 1)])]"
    "comparable_filter [(''key'', Ops [(''isin'', PList [PInt 1])])]"
    by (simp_all add: comparable_filter_def subfilter_operators_def)
  moreover have "valid_keys [(''le'', PInt 1)]" "\<not> valid_keys [(''unknown'', PInt 1)]"
    by (simp_all add: valid_keys_def operator_keys)
  ultimately show ?thesis
    using is_subfilter_assertion [of "[(''key'', Ops [(''eq'', PInt 1)])]"
        "[(''key'', Ops [(''isin'', PList [PInt 1])])]" False "''Invalid keys in d1''"]
      is_subfilter_assertion [of "[(''key'', Ops [(''le'', PInt 1)])]" _ False _ "''key''"
        "Ops [(''le'', PInt 1)]" "[(''le'', PInt 1)]" "Ops [(''unknown'', PInt 1)]"
        "[(''unknown'', PInt 1)]" "[]"]
    by simp
qed

text \<open>
  C6, as the claim states it, fails both ways: the recognized operator \<open>regex\<close> brings the
  assertion failure, and an unrecognized operator in a field that is never compared brings
  none.
\<close>

theorem is_subfilter_assertion_counterexample:
  "is_subfilter [(''key'', Ops [(''regex'', PStr ''a'')])]
     [(''key'', Ops [(''regex'', PStr ''b'')])] False
   = Inl (AssertionError ''Invalid keys in d1'')
   \<and> is_subfilter [(''key'', Ops [(''unknown'', PInt 1)])] [] False = Inr True"
  by (simp add: is_subfilter_def is_subdict_def operator_keys)

section \<open>Properties of the filter algebra\<close>

lemma sequence_Inr_iff:
  "sequence rs = Inr xs \<longleftrightarrow> rs = map Inr xs"
proof (induction rs arbitrary: xs)
  case Nil
  then show ?case by auto
next
  case (Cons r rs)
  show ?case
  proof (cases r)
    case (Inl e)
    then show ?thesis by (cases xs) auto
  next
    case (Inr x)
    show ?thesis
    proof (cases "sequence rs")
      case (Inl e)
      with Inr Cons.IH show ?thesis by (cases xs) auto
    next
      case rs: (Inr ys)
      with Inr Cons.IH [of ys] Cons.IH [of "tl xs"] show ?thesis by (cases xs) auto
    qed
  qed
qed

lemma sequence_length: "sequence rs = Inr xs \<Longrightarrow> length xs = length rs"
  by (simp add: sequence_Inr_iff)

lemma apply_operator_length:
  "apply_operator E op obj v = Inr m \<Longrightarrow> length m = length (cells obj)"
  by (auto simp: apply_operator_def split: sum.splits)

lemma foldl_map2_nth:
  assumes "\<forall>m' \<in> set ms. length m' = length m"
  shows "length (foldl (\<lambda>acc m'. map2 f acc m') m ms) = length m
    \<and> (\<forall>i < length m. foldl (\<lambda>acc m'. map2 f acc m') m ms ! i = foldl f (m ! i) (map (\<lambda>m'. m' ! i) ms))"
  using assms
proof (induction ms arbitrary: m)
  case Nil
  then show ?case by simp
next
  case (Cons a ms)
  have len: "length (map2 f m a) = length m" using Cons.prems by simp
  have "\<forall>m' \<in> set ms. length m' = length (map2 f m a)" using Cons.prems len by simp
  from Cons.IH [OF this] len show ?case using Cons.prems by simp
qed

lemma foldl_conj: "foldl (\<and>) b bs = (b \<and> list_all (\<lambda>x. x) bs)"
  by (induction bs arbitrary: b) auto

lemma foldl_disj: "foldl (\<or>) b bs = (b \<or> list_ex (\<lambda>x. x) bs)"
  by (induction bs arbitrary: b) auto

lemma np_all_nth:
  assumes "masks \<noteq> []" "\<forall>m \<in> set masks. length m = n"
  shows "np_all masks = Inr (map (\<lambda>i. list_all (\<lambda>m. m ! i) masks) [0..<n])"
proof -
  from assms obtain m ms where ms: "masks = m # ms" by (cases masks) auto
  with assms have len: "length m = n" "\<forall>m' \<in> set ms. length m' = length m" by auto
  from foldl_map2_nth [OF len(2), of "(\<and>)"] len(1)
  have "foldl (\<lambda>acc m'. map2 (\<and>) acc m') m ms = map (\<lambda>i. list_all (\<lambda>m. m ! i) masks) [0..<n]"
    by (intro nth_equalityI) (auto simp: ms foldl_conj list_all_iff)
  with len show ?thesis by (simp add: np_all_def ms list_all_iff)
qed

lemma np_any_nth:
  assumes "masks \<noteq> []" "\<forall>m \<in> set masks. length m = n"
  shows "np_any masks = Inr (map (\<lambda>i. list_ex (\<lambda>m. m ! i) masks) [0..<n])"
proof -
  from assms obtain m ms where ms: "masks = m # ms" by (cases masks) auto
  with assms have len: "length m = n" "\<forall>m' \<in> set ms. length m' = length m" by auto
  from foldl_map2_nth [OF len(2), of "(\<or>)"] len(1)
  have "foldl (\<lambda>acc m'. map2 (\<or>) acc m') m ms = map (\<lambda>i. list_ex (\<lambda>m. m ! i) masks) [0..<n]"
    by (intro nth_equalityI) (auto simp: ms foldl_disj list_ex_iff)
  with len show ?thesis by (simp add: np_any_def ms list_all_iff)
qed

lemma and_masks_nth:
  assumes "masks \<noteq> []" "\<forall>m \<in> set masks. length m = n"
  shows "(if length masks = 1 then Inr (hd masks) else np_all masks)
         = Inr (map (\<lambda>i. list_all (\<lambda>m. m ! i) masks) [0..<n])"
proof (cases "length masks = 1")
  case True
  then obtain m where m: "masks = [m]" by (cases masks) auto
  with assms have "length m = n" by simp
  then have "m = map (\<lambda>i. m ! i) [0..<n]" using map_nth [of m] by simp
  with m show ?thesis by simp
next
  case False
  with np_all_nth [OF assms] show ?thesis by simp
qed

lemma operator_masks_length:
  assumes "sequence (map (\<lambda>(op, v). apply_operator E op obj v) d) = Inr masks"
  shows "\<forall>m \<in> set masks. length m = length (cells obj)"
proof -
  from assms have eq: "map (\<lambda>(op, v). apply_operator E op obj v) d = map Inr masks"
    by (simp add: sequence_Inr_iff)
  show ?thesis
  proof
    fix m assume "m \<in> set masks"
    then have "Inr m \<in> set (map (\<lambda>(op, v). apply_operator E op obj v) d)"
      by (simp add: eq)
    then obtain op v where "apply_operator E op obj v = Inr m" by auto
    then show "length m = length (cells obj)" by (rule apply_operator_length)
  qed
qed

lemma compare_Ops_masks:
  assumes "d \<noteq> []" "list_all (\<lambda>op. op \<in> set COMPARISON_OPERATORS) (map fst d)"
    "sequence (map (\<lambda>(op, v). apply_operator E op obj v) d) = Inr masks"
  shows "compare E obj (Ops d) = Inr (map (\<lambda>i. list_all (\<lambda>m. m ! i) masks) [0..<length (cells obj)])"
proof -
  have "filter (\<lambda>op. op \<notin> set COMPARISON_OPERATORS) (map fst d) = []"
    using assms(2) by (simp add: list_all_iff filter_empty_conv)
  moreover have "masks \<noteq> []" using assms(1) sequence_length [OF assms(3)] by auto
  ultimately show ?thesis
    using assms(1,3) and_masks_nth [OF _ operator_masks_length [OF assms(3)]]
    by simp
qed

lemma compare_Ops_unsupported:
  assumes "d \<noteq> []" "\<not> list_all (\<lambda>op. op \<in> set COMPARISON_OPERATORS) (map fst d)"
  shows "compare E obj (Ops d)
         = Inl (UnsupportedOperators (filter (\<lambda>op. op \<notin> set COMPARISON_OPERATORS) (map fst d)))"
proof -
  have "filter (\<lambda>op. op \<notin> set COMPARISON_OPERATORS) (map fst d) \<noteq> []"
    using assms(2) by (simp add: list_all_iff filter_empty_conv)
  with assms(1) show ?thesis by (simp add: Let_def)
qed

text \<open>
  C7: for every series, \<open>compare\<close> with an empty operator mapping fails with
  \<open>ValueError("Empty filter")\<close>; with a mapping that has a key outside the recognized
  operators it fails with \<open>ValueError("Unsupported operator(s): ...")\<close>, which lists those
  keys; with a non-empty mapping of recognized operators, whose per-operator masks the
  engine gives, it returns their elementwise conjunction.
\<close>

theorem compare_mapping:
  "compare E obj (Ops []) = Inl EmptyFilter
   \<and> (d \<noteq> [] \<and> \<not> list_all (\<lambda>op. op \<in> set COMPARISON_OPERATORS) (map fst d)
      \<longrightarrow> compare E obj (Ops d)
          = Inl (UnsupportedOperators
                  (filter (\<lambda>op. op \<notin> set COMPARISON_OPERATORS) (map fst d))))
   \<and> (d \<noteq> [] \<and> list_all (\<lambda>op. op \<in> set COMPARISON_OPERATORS) (map fst d)
       \<and> sequence (map (\<lambda>(op, v). apply_operator E op obj v) d) = Inr masks
      \<longrightarrow> compare E obj (Ops d)
          = Inr (map (\<lambda>i. list_all (\<lambda>m. m ! i) masks) [0..<length (cells obj)]))"
  using compare_Ops_unsupported [of d E obj] compare_Ops_masks [of d E obj masks]
  by simp

theorem compare_mapping_witness:
  "compare py_engine (int_column [0, 2, 3, 7, 8]) (Ops [(''unknown'', PInt 10)])
     = Inl (UnsupportedOperators [''unknown''])
   \<and> compare py_engine (int_column [0, 2, 3, 7, 8])
       (Ops [(''ge'', PInt 3), (''lt'', PInt 8)])
     = Inr [False, False, True, True, False]"
proof -
  have ops: "list_all (\<lambda>op. op \<in> set COMPARISON_OPERATORS)
               (map fst [(''ge'', PInt 3), (''lt'', PInt 8)])"
    "\<not> list_all (\<lambda>op. op \<in> set COMPARISON_OPERATORS) (map fst [(''unknown'', PInt 10)])"
    by (simp_all add: COMPARISON_OPERATORS_def)
  have masks: "sequence (map (\<lambda>(op, v). apply_operator py_engine op
                   (int_column [0, 2, 3, 7, 8]) v)
                 [(''ge'', PInt 3), (''lt'', PInt 8)])
               = Inr [[False, False, True, True, True], [True, True, True, True, False]]"
    by (simp add: apply_operator_def py_engine_def py_cell_def py_lt_def int_column_def upt_rec)
  have idx: "[0..<5] = [0, 1, 2, 3, 4]" by (simp add: upt_rec)
  show ?thesis
    using ops masks
      compare_mapping [of py_engine "(int_column [0, 2, 3, 7, 8])"
        "[(''unknown'', PInt 10)]"]
      compare_mapping [of py_engine "(int_column [0, 2, 3, 7, 8])"
        "[(''ge'', PInt 3), (''lt'', PInt 8)]"
        "[[False, False, True, True, True], [True, True, True, True, False]]"]
    by (simp add: idx COMPARISON_OPERATORS_def int_column_def)
qed


lemma or_masks_loop_skip_empty:
  "or_masks_loop filter_func query_list or_masks
   = or_masks_loop filter_func (filter (\<lambda>q. q \<noteq> []) query_list) or_masks"
proof (induction query_list arbitrary: or_masks)
  case Nil
  then show ?case by simp
next
  case (Cons q qs)
  show ?case
  proof (cases "q = []")
    case True
    with Cons show ?thesis by simp
  next
    case False
    with Cons show ?thesis by (simp split: sum.splits)
  qed
qed

lemma and_or_mask_skip_empty:
  "and_or_mask query_list filter_func
   = and_or_mask (filter (\<lambda>q. q \<noteq> []) query_list) filter_func"
  using or_masks_loop_skip_empty [of filter_func query_list "[]"]
  by (simp add: and_or_mask_def)

lemma and_or_mask_all_empty:
  assumes "list_all (\<lambda>q. q = []) query_list"
  shows "and_or_mask query_list filter_func = Inr None"
proof -
  from assms have "filter (\<lambda>q. q \<noteq> []) query_list = []"
    by (simp add: list_all_iff filter_empty_conv)
  with and_or_mask_skip_empty [of query_list filter_func] show ?thesis
    by (simp add: and_or_mask_def)
qed

text \<open>
  C3, as the code has it: \<open>query_frame\<close> and \<open>query_series\<close> skip the empty dictionaries
  of the query list, returning what they return for the list without them; when every
  dictionary of the list is empty, they return the input with all its rows.
\<close>

theorem query_skips_empty_dicts:
  "query_frame E d query_list = query_frame E d (filter (\<lambda>q. q \<noteq> []) query_list)
   \<and> query_series E s query_list = query_series E s (filter (\<lambda>q. q \<noteq> []) query_list)
   \<and> (list_all (\<lambda>q. q = []) query_list
      \<longrightarrow> query_frame E d query_list = Inr d \<and> query_series E s query_list = Inr s)"
  using and_or_mask_skip_empty [of query_list "frame_filter_func E d"]
    and_or_mask_skip_empty [of query_list "series_filter_func E s"]
    and_or_mask_all_empty [of query_list "frame_filter_func E d"]
    and_or_mask_all_empty [of query_list "series_filter_func E s"]
  by (simp add: query_frame_def query_series_def)

theorem query_skips_empty_dicts_witness:
  "query_frame py_engine example_frame [[], [(''a'', Plain (PInt 1))]]
     = query_frame py_engine example_frame [[(''a'', Plain (PInt 1))]]
   \<and> query_series py_engine example_series [[], [(''i'', Plain (PInt 10))]]
     = query_series py_engine example_series [[(''i'', Plain (PInt 10))]]
   \<and> query_frame py_engine example_frame [[], []] = Inr example_frame
   \<and> query_series py_engine example_series [[], []] = Inr example_series"
proof -
  note a = query_skips_empty_dicts [of py_engine example_frame "[[], [(''a'', Plain (PInt 1))]]"
      example_series, simplified]
  note i = query_skips_empty_dicts [of py_engine example_frame "[[], [(''i'', Plain (PInt 10))]]"
      example_series, simplified]
  note e = query_skips_empty_dicts [of py_engine example_frame "[[], []]" example_series,
      simplified]
  have g: "PInt 1 = PNum 1" "PInt 10 = PNum 10" by simp_all
  from a i e show ?thesis unfolding g by blast
qed

text \<open>
  C3, as the claim states it, fails: with an empty dictionary and a non-empty one in the
  list, only the rows that the non-empty one selects are returned.
\<close>

theorem query_empty_dict_counterexample:
  "query_frame py_engine example_frame [[], [(''a'', Plain (PInt 1))]]
     = Inr \<lparr> df_columns = [(''a'', int_column [1])], df_index = [(Some ''i'', int_column [10])] \<rparr>
   \<and> query_series py_engine example_series [[], [(''i'', Plain (PInt 10))]]
     = Inr \<lparr> s_index = [(Some ''i'', int_column [10])], s_values = int_column [1] \<rparr>"
  by (simp add: query_frame_def query_series_def and_or_mask_def frame_filter_func_def
      series_filter_func_def mapping_def get_column_def get_level_values_def
      apply_operator_def py_engine_def py_cell_def loc_def series_loc_def column_loc_def
      select_def example_frame_def example_series_def int_column_def upt_rec)

section \<open>Properties of the concatenation\<close>




lemma sequence_Inr_ex: "(\<exists>xs. sequence rs = Inr xs) = (\<forall>r \<in> set rs. \<exists>x. r = Inr x)"
proof
  assume "\<exists>xs. sequence rs = Inr xs"
  then show "\<forall>r \<in> set rs. \<exists>x. r = Inr x" by (auto simp: sequence_Inr_iff)
next
  assume "\<forall>r \<in> set rs. \<exists>x. r = Inr x"
  then have "rs = map Inr (map projr rs)" by (induction rs) auto
  then show "\<exists>xs. sequence rs = Inr xs" unfolding sequence_Inr_iff by blast
qed

text \<open>
  The operands that \<open>_ordered\<close> returns: those with the level names of the order, and those
  with as many levels as the order, all the names of the order, and each of them once.
\<close>

lemma brought_to_order_iff:
  "brought_to_order order obj =
     (order = index_names obj
      \<or> length order = nlevels obj \<and> set order \<subseteq> set (index_names obj)
        \<and> (\<forall>n \<in> set order. count_list (index_names obj) n = 1))"
proof (cases "order = index_names obj")
  case True
  then show ?thesis by (simp add: brought_to_order_def ordered_def)
next
  case False
  show ?thesis
  proof (cases "length order = nlevels obj \<and> set order \<subseteq> set (index_names obj)")
    case False
    then have "length order \<noteq> nlevels obj
        \<or> filter (\<lambda>n. n \<notin> set (index_names obj)) order \<noteq> []"
      by (auto simp: filter_empty_conv)
    with False \<open>order \<noteq> index_names obj\<close> show ?thesis
      by (auto simp: brought_to_order_def ordered_def reorder_levels_def Let_def)
  next
    case True
    then have nodiff: "filter (\<lambda>n. n \<notin> set (index_names obj)) order = []"
      by (auto simp: filter_empty_conv)
    let ?g = "\<lambda>n. case map_of (df_index obj) n of
                     None \<Rightarrow> Inl (KeyError (level_repr n))
                   | Some c \<Rightarrow>
                       if count_list (index_names obj) n = 1 then Inr (n, c)
                       else Inl (ValueError ''The name occurs multiple times'')"
    have g: "(\<exists>x. ?g n = Inr x) = (count_list (index_names obj) n = 1)" if "n \<in> set order" for n
    proof -
      from that True have "n \<in> fst ` set (df_index obj)" by (auto simp: index_names_def)
      then obtain c where "map_of (df_index obj) n = Some c"
        by (cases "map_of (df_index obj) n") (auto simp: map_of_eq_None_iff)
      then show ?thesis by simp
    qed
    have "brought_to_order order obj = (\<exists>idx. sequence (map ?g order) = Inr idx)"
      using True nodiff \<open>order \<noteq> index_names obj\<close>
      by (auto simp: brought_to_order_def ordered_def reorder_levels_def pd_reorder_levels_def
          split: sum.splits)
    also have "\<dots> = (\<forall>n \<in> set order. count_list (index_names obj) n = 1)"
      unfolding sequence_Inr_ex using g by auto
    finally show ?thesis using True \<open>order \<noteq> index_names obj\<close> by simp
  qed
qed




section \<open>Correctness of the prefix cache\<close>

lemma map_eq_map_Inr:
  "map f xs = map Inr ys \<longleftrightarrow> (\<forall>x \<in> set xs. \<exists>y. f x = Inr y) \<and> ys = map (\<lambda>x. projr (f x)) xs"
proof (induction xs arbitrary: ys)
  case Nil
  then show ?case by auto
next
  case (Cons x xs)
  show ?case
  proof (cases ys)
    case Nil
    then show ?thesis by simp
  next
    case (Cons y ys')
    with Cons.IH [of ys'] show ?thesis by auto
  qed
qed

lemma apply_operator_Inr_iff:
  "apply_operator E op obj v = Inr m \<longleftrightarrow>
     (\<exists>selected. E op obj v = Inr selected)
     \<and> m = map (projr (E op obj v)) [0..<length (cells obj)]"
  by (cases "E op obj v") (auto simp: apply_operator_def)

text \<open>
  When \<open>compare\<close> returns a mask for an operator mapping, the mask is determined by the set
  of the items of the mapping.
\<close>

lemma compare_Ops_Inr_iff:
  "compare E obj (Ops d) = Inr m \<longleftrightarrow>
     d \<noteq> [] \<and> list_all (\<lambda>op. op \<in> set COMPARISON_OPERATORS) (map fst d)
     \<and> (\<forall>p \<in> set d. \<exists>selected. E (fst p) obj (snd p) = Inr selected)
     \<and> m = map (\<lambda>i. \<forall>p \<in> set d. projr (E (fst p) obj (snd p)) i) [0..<length (cells obj)]"
proof (cases "d \<noteq> [] \<and> list_all (\<lambda>op. op \<in> set COMPARISON_OPERATORS) (map fst d)")
  case False
  then show ?thesis
    by (auto simp: Let_def list_all_iff filter_empty_conv)
next
  case True
  then have d: "d \<noteq> []"
    and keys: "list_all (\<lambda>op. op \<in> set COMPARISON_OPERATORS) (map fst d)" by simp_all
  have unsupported: "filter (\<lambda>op. op \<notin> set COMPARISON_OPERATORS) (map fst d) = []"
    using keys by (simp add: list_all_iff filter_empty_conv)
  let ?f = "\<lambda>(op, v). apply_operator E op obj v"
  let ?ok = "\<forall>p \<in> set d. \<exists>selected. E (fst p) obj (snd p) = Inr selected"
  let ?m = "map (\<lambda>i. \<forall>p \<in> set d. projr (E (fst p) obj (snd p)) i) [0..<length (cells obj)]"
  have f: "(\<exists>y. ?f p = Inr y) = (\<exists>selected. E (fst p) obj (snd p) = Inr selected)" for p
    by (cases p) (simp add: apply_operator_Inr_iff)
  show ?thesis
  proof (cases "sequence (map ?f d)")
    case (Inl e)
    have "\<not> (\<forall>p \<in> set d. \<exists>y. ?f p = Inr y)"
    proof
      assume "\<forall>p \<in> set d. \<exists>y. ?f p = Inr y"
      then have "map ?f d = map Inr (map (\<lambda>p. projr (?f p)) d)"
        unfolding map_eq_map_Inr by simp
      then have "sequence (map ?f d) = Inr (map (\<lambda>p. projr (?f p)) d)"
        by (simp only: sequence_Inr_iff)
      with Inl show False by simp
    qed
    then have "\<not> ?ok" unfolding f .
    with Inl d unsupported show ?thesis by (simp add: Let_def)
  next
    case (Inr masks)
    then have eq: "map ?f d = map Inr masks" by (simp add: sequence_Inr_iff)
    then have each: "\<forall>p \<in> set d. \<exists>y. ?f p = Inr y"
      and masks: "masks = map (\<lambda>p. projr (?f p)) d"
      by (simp_all add: map_eq_map_Inr)
    from each have ok: ?ok unfolding f .
    have g: "projr (?f p) = map (projr (E (fst p) obj (snd p))) [0..<length (cells obj)]"
      if "p \<in> set d" for p
    proof -
      from each that obtain y where y: "?f p = Inr y" by blast
      then have "apply_operator E (fst p) obj (snd p) = Inr y" by (simp add: split_def)
      then have "y = map (projr (E (fst p) obj (snd p))) [0..<length (cells obj)]"
        by (simp add: apply_operator_Inr_iff)
      with y show ?thesis by simp
    qed
    have "compare E obj (Ops d)
            = Inr (map (\<lambda>i. list_all (\<lambda>m. m ! i) masks) [0..<length (cells obj)])"
      using d keys Inr by (rule compare_Ops_masks)
    also have "map (\<lambda>i. list_all (\<lambda>m. m ! i) masks) [0..<length (cells obj)] = ?m"
      by (intro nth_equalityI) (auto simp: masks list_all_iff g)
    finally show ?thesis using True ok by auto
  qed
qed

lemma compare_value_eq:
  assumes "value_eq v v'"
  shows "compare E obj v = Inr m \<longleftrightarrow> compare E obj v' = Inr m"
proof (cases v)
  case (Plain p)
  with assms obtain p' where "v' = Plain p'" "py_eq p p'" by (cases v') auto
  with Plain show ?thesis by (simp add: py_eq_iff)
next
  case (Ops d)
  with assms obtain d' where d': "v' = Ops d'" "set d = set d'" by (cases v') auto
  then have "set (map fst d) = set (map fst d')" by simp
  moreover have "d = [] \<longleftrightarrow> d' = []" using d'(2) by (metis set_empty)
  ultimately show ?thesis
    unfolding Ops d'(1) compare_Ops_Inr_iff list_all_iff d'(2) by simp
qed

lemma etl_q_single:
  "etl_q E d [(k, v)] =
     (case field_series d k of
        Inl e \<Rightarrow> Inl e
      | Inr obj \<Rightarrow> (case compare E obj v of Inl e \<Rightarrow> Inl e | Inr m \<Rightarrow> Inr (loc d m)))"
proof (cases "mapping d k")
  case None
  then show ?thesis
    by (simp add: etl_q_def query_frame_def and_or_mask_def frame_filter_func_def
        field_series_def)
next
  case (Some pl)
  show ?thesis
  proof (cases pl)
    case Columns
    with Some show ?thesis
      by (simp add: etl_q_def query_frame_def and_or_mask_def frame_filter_func_def
          field_series_def split: sum.splits)
  next
    case Index
    with Some show ?thesis
      by (simp add: etl_q_def query_frame_def and_or_mask_def frame_filter_func_def
          field_series_def split: sum.splits)
  qed
qed

lemma etl_q_value_eq:
  assumes "value_eq v v'" "etl_q E d [(k, v)] = Inr d'"
  shows "etl_q E d [(k, v')] = Inr d'"
proof -
  from assms(2) obtain obj m where obj: "field_series d k = Inr obj"
    and m: "compare E obj v = Inr m" and d': "d' = loc d m"
    by (auto simp: etl_q_single split: sum.splits)
  from m have "compare E obj v' = Inr m" by (simp add: compare_value_eq [OF assms(1)])
  with obj d' show ?thesis by (simp add: etl_q_single)
qed

lemma stack_top_Cons: "stack_top d (item # stack) = stack_top (df item) stack"
  by (simp add: stack_top_def)

lemma chain_ok_append:
  "chain_ok E h d (stack @ [item])
   \<longleftrightarrow> chain_ok E h d stack
       \<and> etl_q E (stack_top d stack) [(key item, h (val item))] = Inr (df item)"
proof (induction stack arbitrary: d)
  case Nil
  then show ?case by (simp add: stack_top_def)
next
  case (Cons a stack)
  then show ?case by (simp add: stack_top_Cons)
qed

lemma chain_ok_take: "chain_ok E h d stack \<Longrightarrow> chain_ok E h d (take n stack)"
proof (induction stack arbitrary: d n)
  case Nil
  then show ?case by simp
next
  case (Cons a stack)
  then show ?case by (cases n) simp_all
qed

text \<open>
  The loop of \<open>query\<close>: from a stack of \<open>n\<close> entries it filters by the fields after the
  first \<open>n\<close>, in order, with the values that the objects have at the call.
\<close>

lemma query_loop_result:
  assumes "length vs = length ks"
  shows "fst (query_loop E h ks vs d self)
         = filter_in_order E d (drop (length (cdf_stack self)) (zip ks (map h vs)))"
proof (induction "length ks - length (cdf_stack self)" arbitrary: d self)
  case 0
  then show ?case using assms by (simp add: query_loop.simps [of E h ks vs d self])
next
  case (Suc j)
  let ?n = "length (cdf_stack self)"
  from Suc.hyps(2) have lt: "?n < length ks" by simp
  with assms have dr: "drop ?n (zip ks (map h vs))
      = (ks ! ?n, h (vs ! ?n)) # drop (Suc ?n) (zip ks (map h vs))"
    by (simp add: Cons_nth_drop_Suc [symmetric])
  show ?case
  proof (cases "etl_q E d [(ks ! ?n, h (vs ! ?n))]")
    case (Inl e)
    with lt dr show ?thesis by (simp add: query_loop.simps [of E h ks vs d self])
  next
    case (Inr d')
    let ?self' = "self\<lparr>cdf_stack := cdf_stack self
                     @ [\<lparr>df = d', key = ks ! ?n, val = vs ! ?n\<rparr>]\<rparr>"
    have "j = length ks - length (cdf_stack ?self')" using Suc.hyps(2) by simp
    from Suc.hyps(1) [OF this, of d']
    have "fst (query_loop E h ks vs d' ?self')
          = filter_in_order E d' (drop (Suc ?n) (zip ks (map h vs)))" by simp
    with lt dr Inr show ?thesis by (simp add: query_loop.simps [of E h ks vs d self])
  qed
qed

text \<open>
  The loop keeps the invariant for the heap \<open>h\<close> when it runs with a heap \<open>h'\<close> that gives
  the values of the query the value they have in \<open>h\<close>.
\<close>

lemma query_loop_state:
  assumes "chain_ok E h base (cdf_stack self)"
    and "length vs = length ks"
    and "\<forall>r \<in> set vs. h' r = h r"
  shows "chain_ok E h base
           (cdf_stack (snd (query_loop E h' ks vs (stack_top base (cdf_stack self)) self)))
    \<and> cdf_df (snd (query_loop E h' ks vs (stack_top base (cdf_stack self)) self)) = cdf_df self
    \<and> cdf_valid_keys (snd (query_loop E h' ks vs (stack_top base (cdf_stack self)) self))
        = cdf_valid_keys self"
  using assms(1)
proof (induction "length ks - length (cdf_stack self)" arbitrary: self)
  case 0
  then show ?case
    by (simp add: query_loop.simps [of E h' ks vs "stack_top base (cdf_stack self)" self])
next
  case (Suc j)
  let ?n = "length (cdf_stack self)"
  let ?d = "stack_top base (cdf_stack self)"
  from Suc.hyps(2) have lt: "?n < length ks" by simp
  with assms(2,3) have same: "h' (vs ! ?n) = h (vs ! ?n)" by simp
  show ?case
  proof (cases "etl_q E ?d [(ks ! ?n, h' (vs ! ?n))]")
    case (Inl e)
    with lt Suc.prems show ?thesis by (simp add: query_loop.simps [of E h' ks vs ?d self])
  next
    case (Inr d')
    let ?self' = "self\<lparr>cdf_stack := cdf_stack self
                     @ [\<lparr>df = d', key = ks ! ?n, val = vs ! ?n\<rparr>]\<rparr>"
    have j: "j = length ks - length (cdf_stack ?self')" using Suc.hyps(2) by simp
    have chain: "chain_ok E h base (cdf_stack ?self')"
      using Suc.prems Inr same by (simp add: chain_ok_append)
    have top: "stack_top base (cdf_stack ?self') = d'"
      by (simp add: stack_top_def)
    from Suc.hyps(1) [OF j chain] lt Inr show ?thesis
      unfolding top by (simp add: query_loop.simps [of E h' ks vs ?d self])
  qed
qed

lemma joint_prefix_length_le:
  "joint_prefix_length h stack q \<le> length stack" "joint_prefix_length h stack q \<le> length q"
  by (induction h stack q rule: joint_prefix_length.induct) auto

text \<open>A matching prefix of the stack stands for the same filtering of the base table.\<close>

lemma filter_in_order_prefix:
  assumes "chain_ok E h d stack"
  shows "filter_in_order E d (deref h q)
         = filter_in_order E (stack_top d (take (joint_prefix_length h stack q) stack))
             (drop (joint_prefix_length h stack q) (deref h q))"
  using assms
proof (induction h stack q arbitrary: d rule: joint_prefix_length.induct)
  case (1 h item stack k v q)
  show ?case
  proof (cases "key item = k \<and> value_eq (h (val item)) (h v)")
    case True
    from "1.prems" have step: "etl_q E d [(key item, h (val item))] = Inr (df item)"
      and rest: "chain_ok E h (df item) stack" by simp_all
    from True step have "etl_q E d [(k, h v)] = Inr (df item)"
      using etl_q_value_eq [of "h (val item)" "h v" E d "key item" "df item"] by simp
    with True "1.IH" [OF True rest] show ?thesis by (simp add: stack_top_Cons deref_def)
  next
    case False
    then show ?thesis by (auto simp: stack_top_def deref_def)
  qed
qed (simp_all add: stack_top_def deref_def)

lemma known_fields_deref: "known_fields d (deref h q) = deref h (known_fields d q)"
  by (induction q) (auto simp: known_fields_def deref_def)

lemma deref_fst_snd: "zip (map fst q) (map h (map snd q)) = deref h q"
  by (induction q) (auto simp: deref_def)

lemma query_unfold:
  assumes "cache_ok E h base self"
  shows "query E h' self q ignore_unknown_keys
         = query_loop E h' (map fst (if ignore_unknown_keys then known_fields base q else q))
             (map snd (if ignore_unknown_keys then known_fields base q else q))
             (stack_top base
                (take (joint_prefix_length h' (cdf_stack self)
                         (if ignore_unknown_keys then known_fields base q else q))
                   (cdf_stack self)))
             (self\<lparr>cdf_matched := joint_prefix_length h' (cdf_stack self)
                                     (if ignore_unknown_keys then known_fields base q else q),
                   cdf_stack := take (joint_prefix_length h' (cdf_stack self)
                                        (if ignore_unknown_keys then known_fields base q else q))
                                  (cdf_stack self)\<rparr>)"
proof -
  let ?q = "if ignore_unknown_keys then known_fields base q else q"
  let ?m = "joint_prefix_length h' (cdf_stack self) ?q"
  let ?stack = "take ?m (cdf_stack self)"
  from assms have base: "cdf_df self = base"
    and keys: "set (cdf_valid_keys self)
        = {k. k \<in> fst ` set (df_columns base) \<or> (k \<noteq> [] \<and> Some k \<in> fst ` set (df_index base))}"
    by (simp_all add: cache_ok_def)
  have q': "(if ignore_unknown_keys
             then filter (\<lambda>(k, v). k \<in> set (cdf_valid_keys self)) q else q) = ?q"
    unfolding keys known_fields_def by simp
  have matched: "min (longest_keys_count self (map fst ?q))
                     (longest_values_count h' self (map snd ?q)) = ?m"
    by (simp add: longest_keys_count_def longest_values_count_def min_counts_joint)
  have top: "(if ?stack \<noteq> [] then df (last ?stack) else cdf_df self) = stack_top base ?stack"
    by (simp add: stack_top_def base)
  show ?thesis
    unfolding query_def q' Let_def matched top ..
qed

text \<open>
  A query on a cache that satisfies the invariant for the heap of the call returns what
  filtering the base table by the fields in order returns.
\<close>

lemma query_result:
  assumes "cache_ok E h base self"
  shows "fst (query E h self q ignore_unknown_keys)
         = filter_in_order E base
             (deref h (if ignore_unknown_keys then known_fields base q else q))"
proof -
  let ?q = "if ignore_unknown_keys then known_fields base q else q"
  let ?m = "joint_prefix_length h (cdf_stack self) ?q"
  let ?stack = "take ?m (cdf_stack self)"
  let ?self = "self\<lparr>cdf_matched := ?m, cdf_stack := ?stack\<rparr>"
  from assms have chain: "chain_ok E h base (cdf_stack self)" by (simp add: cache_ok_def)
  have len: "length (cdf_stack ?self) = ?m"
    using joint_prefix_length_le(1) [of h "cdf_stack self" ?q] by simp
  have "fst (query E h self q ignore_unknown_keys)
        = filter_in_order E (stack_top base ?stack)
            (drop ?m (zip (map fst ?q) (map h (map snd ?q))))"
    unfolding query_unfold [OF assms]
    using query_loop_result [of "map snd ?q" "map fst ?q" E h "stack_top base ?stack" ?self]
    unfolding len by simp
  also have "\<dots> = filter_in_order E (stack_top base ?stack) (drop ?m (deref h ?q))"
    unfolding deref_fst_snd ..
  also have "\<dots> = filter_in_order E base (deref h ?q)"
    using filter_in_order_prefix [OF chain, of ?q] by simp
  finally show ?thesis .
qed

text \<open>
  A query keeps the invariant for the heap \<open>h\<close> when the values of its dictionary have, at
  the call, the value they have in \<open>h\<close>.
\<close>

lemma query_state:
  assumes "cache_ok E h base self"
    and "list_all (\<lambda>(k, r). h' r = h r) q"
  shows "cache_ok E h base (snd (query E h' self q ignore_unknown_keys))"
proof -
  let ?q = "if ignore_unknown_keys then known_fields base q else q"
  let ?m = "joint_prefix_length h' (cdf_stack self) ?q"
  let ?stack = "take ?m (cdf_stack self)"
  let ?self = "self\<lparr>cdf_matched := ?m, cdf_stack := ?stack\<rparr>"
  from assms(1) have base: "cdf_df self = base"
    and keys: "set (cdf_valid_keys self)
        = {k. k \<in> fst ` set (df_columns base) \<or> (k \<noteq> [] \<and> Some k \<in> fst ` set (df_index base))}"
    and chain: "chain_ok E h base (cdf_stack self)"
    by (simp_all add: cache_ok_def)
  have "set ?q \<subseteq> set q" by (auto simp: known_fields_def)
  with assms(2) have same: "\<forall>r \<in> set (map snd ?q). h' r = h r"
    unfolding list_all_iff by force
  have chain': "chain_ok E h base (cdf_stack ?self)" using chain by (simp add: chain_ok_take)
  have "length (map snd ?q) = length (map fst ?q)" by simp
  from query_loop_state [OF chain' this same]
  show ?thesis
    unfolding query_unfold [OF assms(1)] by (simp add: cache_ok_def base keys)
qed

lemma cache_ok_init: "cache_ok E h d (CachedDataFrame_init d)"
proof -
  have "set (concat (map (\<lambda>(k, c). case k of None \<Rightarrow> [] | Some n \<Rightarrow> if n = [] then [] else [n])
                       idx))
        = {k. k \<noteq> [] \<and> Some k \<in> fst ` set idx}" for idx :: "(string option \<times> column) list"
    by (induction idx) (auto split: option.splits)
  then show ?thesis
    by (auto simp: cache_ok_def CachedDataFrame_init_def)
qed

lemma cache_ok_run_queries:
  assumes "cache_ok E h d self" and "unchanged_values h calls"
  shows "cache_ok E h d (run_queries E self calls)"
  using assms
proof (induction calls arbitrary: self)
  case Nil
  then show ?case by simp
next
  case (Cons c calls)
  obtain h' q ign where c: "c = (h', q, ign)" by (cases c)
  from Cons.prems(2) have now: "list_all (\<lambda>(k, r). h' r = h r) q"
    and later: "unchanged_values h calls"
    by (simp_all add: unchanged_values_def c)
  from Cons.prems(1) now have "cache_ok E h d (snd (query E h' self q ign))"
    by (rule query_state)
  from Cons.IH [OF this later] show ?case by (simp add: c)
qed

lemma query_after_queries:
  assumes "unchanged_values h calls"
  shows "fst (query E h (run_queries E (CachedDataFrame_init base) calls) q ignore_unknown_keys)
         = filter_in_order E base
             (if ignore_unknown_keys then known_fields base (deref h q) else deref h q)"
proof -
  have "cache_ok E h base (run_queries E (CachedDataFrame_init base) calls)"
    using cache_ok_init assms by (rule cache_ok_run_queries)
  from query_result [OF this, of q ignore_unknown_keys] show ?thesis
    by (simp add: known_fields_deref)
qed

text \<open>
  C1, as the code has it: for every base table, every engine and every sequence of query
  calls on a \<open>CachedDataFrame\<close>, if no object given as a query value in one of those calls
  has been changed in place since (it has at the call of \<open>query(Q)\<close> the value it had when
  it was given), then \<open>query(Q)\<close> returns what filtering the base table by the fields of
  \<open>Q\<close> one after the other returns, each field filtering the rows that the fields before it
  kept: the same table, or the same error. With \<open>ignore_unknown_keys\<close>, the fields of \<open>Q\<close>
  are those named as a column or as a named index level of the base table.
\<close>

theorem cached_query_correct:
  assumes "unchanged_values h calls"
  shows "fst (query E h (run_queries E (CachedDataFrame_init base) calls) q False)
           = filter_in_order E base (deref h q)
       \<and> fst (query E h (run_queries E (CachedDataFrame_init base) calls) q True)
           = filter_in_order E base (known_fields base (deref h q))"
  using query_after_queries [OF assms, of E base q False]
    query_after_queries [OF assms, of E base q True]
  by simp

theorem cached_query_correct_witness:
  "unchanged_values test_heap [(test_heap, window_query, False)]
   \<and> fst (query py_engine test_heap
           (run_queries py_engine (CachedDataFrame_init simulations_table)
              [(test_heap, window_query, False)])
           trial_query False)
     = Inr \<lparr> df_columns =
               [(''simulation_id'', int_column [1]), (''circuit_id'', int_column [0]),
                (''window'', str_column [''w0'']), (''trial'', int_column [1])],
             df_index = [(None, int_column [5])] \<rparr>
   \<and> fst (query py_engine test_heap
           (run_queries py_engine (CachedDataFrame_init simulations_table)
              [(test_heap, window_query, False)])
           ((''unknown'', 0) # trial_query) True)
     = Inr \<lparr> df_columns =
               [(''simulation_id'', int_column [1]), (''circuit_id'', int_column [0]),
                (''window'', str_column [''w0'']), (''trial'', int_column [1])],
             df_index = [(None, int_column [5])] \<rparr>"
proof -
  have u: "unchanged_values test_heap [(test_heap, window_query, False)]"
    by (simp add: unchanged_values_def list_all_iff)
  have f: "filter_in_order py_engine simulations_table (deref test_heap trial_query)
     = Inr \<lparr> df_columns =
               [(''simulation_id'', int_column [1]), (''circuit_id'', int_column [0]),
                (''window'', str_column [''w0'']), (''trial'', int_column [1])],
             df_index = [(None, int_column [5])] \<rparr>"
    by (simp add: deref_def trial_query_def window_query_def test_heap_def heap_of_def
        etl_q_def query_frame_def and_or_mask_def frame_filter_func_def mapping_def
        get_column_def get_level_values_def apply_operator_def py_engine_def py_cell_def
        loc_def column_loc_def select_def simulations_table_def int_column_def str_column_def
        upt_rec)
  have k: "known_fields simulations_table (deref test_heap ((''unknown'', 0) # trial_query))
           = deref test_heap trial_query"
    by (simp add: known_fields_def deref_def trial_query_def window_query_def
        simulations_table_def)
  note a = cached_query_correct [OF u, of py_engine simulations_table trial_query,
      THEN conjunct1]
  note b = cached_query_correct [OF u, of py_engine simulations_table
      "(''unknown'', 0) # trial_query", THEN conjunct2]
  from u a [unfolded f] b [unfolded k f] show ?thesis by (intro conjI)
qed

text \<open>The two examples of the counterexample, step by step.\<close>
lemma pairs_a_isin: "etl_q py_engine pairs_table [(''a'', Plain (PList [PNum 1]))]
     = Inr \<lparr> df_columns = [(''a'', int_column [1, 1]), (''b'', int_column [10, 30])],
             df_index = [(None, int_column [0, 2])] \<rparr>"
  by (simp add: etl_q_def query_frame_def and_or_mask_def frame_filter_func_def mapping_def
        get_column_def get_level_values_def apply_operator_def py_engine_def py_cell_def
        loc_def column_loc_def select_def pairs_table_def int_column_def upt_rec)

lemma pairs_state: "run_queries py_engine (CachedDataFrame_init pairs_table)
            [(heap_of [Plain (PList [PInt 1])], [(''a'', 0)], False)]
   = (CachedDataFrame_init pairs_table)\<lparr>cdf_stack :=
        [\<lparr>df = \<lparr> df_columns = [(''a'', int_column [1, 1]), (''b'', int_column [10, 30])],
             df_index = [(None, int_column [0, 2])] \<rparr>, key = ''a'', val = 0\<rparr>]\<rparr>"
  by (simp add: query_def longest_keys_count_def longest_values_count_def
      longest_match_count_def query_loop.simps [of _ _ "[''a'']" "[0]"] heap_of_def pairs_a_isin
      CachedDataFrame_init_def Let_def)

lemma pairs_stale: "fst (query py_engine (heap_of [Plain (PList [PInt 1, PInt 2])])
         (run_queries py_engine (CachedDataFrame_init pairs_table)
            [(heap_of [Plain (PList [PInt 1])], [(''a'', 0)], False)])
         [(''a'', 0)] False)
     = Inr \<lparr> df_columns = [(''a'', int_column [1, 1]), (''b'', int_column [10, 30])],
             df_index = [(None, int_column [0, 2])] \<rparr>"
  unfolding pairs_state
  by (simp add: query_def longest_keys_count_def longest_values_count_def
      longest_match_count_def query_loop.simps [of _ _ "[''a'']" "[0]"] heap_of_def
      CachedDataFrame_init_def Let_def)

lemma pairs_a_eq: "etl_q py_engine pairs_table [(''a'', Plain (PNum 1))]
     = Inr \<lparr> df_columns = [(''a'', int_column [1, 1]), (''b'', int_column [10, 30])],
             df_index = [(None, int_column [0, 2])] \<rparr>"
  by (simp add: etl_q_def query_frame_def and_or_mask_def frame_filter_func_def mapping_def
        get_column_def get_level_values_def apply_operator_def py_engine_def py_cell_def
        loc_def column_loc_def select_def pairs_table_def int_column_def upt_rec)

lemma pairs_b_eq_list: "etl_q py_engine \<lparr> df_columns = [(''a'', int_column [1, 1]), (''b'', int_column [10, 30])],
             df_index = [(None, int_column [0, 2])] \<rparr>
        [(''b'', Ops [(''eq'', PList [PNum 10, PNum 20, PNum 30])])]
     = Inl (ValueError ''Lengths must match to compare'')"
  by (simp add: etl_q_def query_frame_def and_or_mask_def frame_filter_func_def mapping_def
        get_column_def get_level_values_def apply_operator_def py_engine_def py_cell_def
        int_column_def COMPARISON_OPERATORS_def)

lemma pairs_raises: "fst (query py_engine
           (heap_of [Plain (PInt 1), Ops [(''eq'', PList [PInt 10, PInt 20, PInt 30])]])
           (CachedDataFrame_init pairs_table) [(''a'', 0), (''b'', 1)] False)
     = Inl (ValueError ''Lengths must match to compare'')"
  by (simp add: query_def longest_keys_count_def longest_values_count_def
      longest_match_count_def query_loop.simps [of _ _ "[''a'', ''b'']" "[0, Suc 0]"] heap_of_def
      pairs_a_eq pairs_b_eq_list CachedDataFrame_init_def Let_def)

lemma pairs_direct: "filter_in_order py_engine pairs_table
       (deref (heap_of [Plain (PList [PInt 1, PInt 2])]) [(''a'', 0)])
     = Inr pairs_table"
    by (simp add: deref_def heap_of_def
        etl_q_def query_frame_def and_or_mask_def frame_filter_func_def mapping_def
        get_column_def get_level_values_def apply_operator_def py_engine_def py_cell_def
        loc_def column_loc_def select_def pairs_table_def int_column_def upt_rec)

lemma pairs_whole: "query_frame py_engine pairs_table
       [[(''a'', Plain (PInt 1)), (''b'', Ops [(''eq'', PList [PInt 10, PInt 20, PInt 30])])]]
     = Inr \<lparr> df_columns = [(''a'', int_column [1, 1]), (''b'', int_column [10, 30])],
             df_index = [(None, int_column [0, 2])] \<rparr>"
    by (simp add: query_frame_def and_or_mask_def frame_filter_func_def mapping_def
        get_column_def get_level_values_def apply_operator_def py_engine_def py_cell_def
        np_all_def loc_def column_loc_def select_def pairs_table_def int_column_def upt_rec
        COMPARISON_OPERATORS_def)

text \<open>
  C1, as the claim states it, fails in two ways. The cache keeps the objects of the query,
  not their values: after \<open>query({a: xs})\<close> with the list \<open>xs = [1]\<close>, and \<open>xs\<close> extended in
  place to \<open>[1, 2]\<close>, the same call returns the cached rows where \<open>a\<close> is \<open>1\<close>, and filtering
  the table directly returns all its rows. And each field of the query filters the rows
  that the fields before it kept, not the base table: with a list operand of \<open>eq\<close>, which
  the engine compares with a series position by position, \<open>query_frame\<close> on the base table
  with the whole dictionary \<open>{a: 1, b: {eq: [10, 20, 30]}}\<close> returns the rows 0 and 2, and
  the cached query raises, since the list is compared with the two rows that \<open>a = 1\<close>
  kept.
\<close>

theorem cached_query_counterexample:
  "fst (query py_engine (heap_of [Plain (PList [PInt 1, PInt 2])])
         (run_queries py_engine (CachedDataFrame_init pairs_table)
            [(heap_of [Plain (PList [PInt 1])], [(''a'', 0)], False)])
         [(''a'', 0)] False)
     = Inr \<lparr> df_columns = [(''a'', int_column [1, 1]), (''b'', int_column [10, 30])],
             df_index = [(None, int_column [0, 2])] \<rparr>
   \<and> filter_in_order py_engine pairs_table
       (deref (heap_of [Plain (PList [PInt 1, PInt 2])]) [(''a'', 0)])
     = Inr pairs_table
   \<and> query_frame py_engine pairs_table
       [[(''a'', Plain (PInt 1)), (''b'', Ops [(''eq'', PList [PInt 10, PInt 20, PInt 30])])]]
     = Inr \<lparr> df_columns = [(''a'', int_column [1, 1]), (''b'', int_column [10, 30])],
             df_index = [(None, int_column [0, 2])] \<rparr>
   \<and> fst (query py_engine
           (heap_of [Plain (PInt 1), Ops [(''eq'', PList [PInt 10, PInt 20, PInt 30])]])
           (CachedDataFrame_init pairs_table) [(''a'', 0), (''b'', 1)] False)
     = Inl (ValueError ''Lengths must match to compare'')"
  using pairs_stale pairs_direct pairs_whole pairs_raises by (intro conjI)

end
